theory Spec2Isabelle
  imports Complex_Main "HOL-Library.Sublist" "HOL-Library.Multiset" "HOL-Library.AList"
begin

section \<open>JavaScript strings\<close>

text \<open>
  File names, queries and URIs are modelled as byte strings. The methods
  \<^verbatim>\<open>endsWith\<close>, \<^verbatim>\<open>includes\<close> and \<^verbatim>\<open>replace\<close> (with a string pattern: the first occurrence
  only) compare text unit by unit and are written out below.

  \<^verbatim>\<open>String.prototype.toLowerCase\<close> and \<^verbatim>\<open>String.prototype.trim\<close> follow the Unicode
  tables of the JavaScript engine: letters beyond \<open>A..Z\<close> have lower-case forms, and
  \<^verbatim>\<open>trim\<close> strips more than the ASCII white space (the no-break space, the byte order
  mark, the line and paragraph separators, ...). They are therefore services of the
  engine and fields of the platform record below, with nothing assumed about them.
  \<open>asciiLowerCase\<close> and \<open>asciiTrim\<close> are what the two methods do on ASCII text: \<open>A..Z\<close>
  become \<open>a..z\<close>, and blanks, tabs and line breaks are stripped at both ends. The
  in-memory platform of the concrete runs uses them.
\<close>

definition upperLetters :: string where
  "upperLetters = ''ABCDEFGHIJKLMNOPQRSTUVWXYZ''"

definition lowerLetters :: string where
  "lowerLetters = ''abcdefghijklmnopqrstuvwxyz''"

definition digits :: string where
  "digits = ''0123456789''"

definition asciiLowerCaseChar :: "char \<Rightarrow> char" where
  "asciiLowerCaseChar c =
     (case map_of (zip upperLetters lowerLetters) c of None \<Rightarrow> c | Some l \<Rightarrow> l)"

definition asciiLowerCase :: "string \<Rightarrow> string" where
  "asciiLowerCase s = map asciiLowerCaseChar s"

definition endsWith :: "string \<Rightarrow> string \<Rightarrow> bool" where
  "endsWith s t = (length t \<le> length s \<and> drop (length s - length t) s = t)"

fun includes_str :: "string \<Rightarrow> string \<Rightarrow> bool" where
  "includes_str [] q = (q = [])"
| "includes_str (c # s) q = (take (length q) (c # s) = q \<or> includes_str s q)"

definition isWhiteSpace :: "char \<Rightarrow> bool" where
  "isWhiteSpace c = (c \<in> set [CHR '' '', CHR 0x09, CHR 0x0A, CHR 0x0B, CHR 0x0C, CHR 0x0D])"

definition asciiTrim :: "string \<Rightarrow> string" where
  "asciiTrim s = rev (dropWhile isWhiteSpace (rev (dropWhile isWhiteSpace s)))"

fun replaceFirst :: "string \<Rightarrow> string \<Rightarrow> string \<Rightarrow> string" where
  "replaceFirst pat rep [] = (if pat = [] then rep else [])"
| "replaceFirst pat rep (c # s) =
     (if take (length pat) (c # s) = pat then rep @ drop (length pat) (c # s)
      else c # replaceFirst pat rep s)"

section \<open>Documents, file metadata and the platform services\<close>

text \<open>The interface \<^verbatim>\<open>PdfDoc\<close> of the library screen. Its fields \<^verbatim>\<open>id\<close> and
  \<^verbatim>\<open>size\<close> are written \<open>id_doc\<close> and \<open>size_doc\<close>, the \<^verbatim>\<open>size\<close> of the file
  metadata \<open>size_info\<close>, and the string method \<^verbatim>\<open>includes\<close> is \<open>includes_str\<close>.\<close>

record PdfDoc =
  id_doc :: string
  name :: string
  date :: string
  size_doc :: string
  uri :: string
  timestamp :: real

text \<open>What \<^verbatim>\<open>FileSystem.getInfoAsync\<close> resolves to. The size and the modification
  time (seconds) are read only when \<open>exists\<close> holds.\<close>

record FileInfo =
  exists :: bool
  size_info :: nat
  modificationTime :: real

text \<open>
  The file system, the print service and the clock are services of the platform, not
  code of the repository. They are parameters of the model: a record of functions over
  a state of the outside world \<open>'w\<close>. A call that rejects (throws) returns \<open>Inl\<close> with the
  error's message. Queries do not change the world; \<^verbatim>\<open>copyAsync\<close>, \<^verbatim>\<open>deleteAsync\<close>
  and \<^verbatim>\<open>printToFileAsync\<close> return the world they leave. Sizes and times are real
  numbers the platform hands over; \<^verbatim>\<open>toLocaleDateString\<close> and \<^verbatim>\<open>toFixed(2)\<close> render them.
  The last two fields are the engine's \<^verbatim>\<open>toLowerCase\<close> and \<^verbatim>\<open>trim\<close>.
\<close>

record 'w Platform =
  documentDirectory :: "string option"
  readDirectoryAsync :: "string \<Rightarrow> 'w \<Rightarrow> string + string list"
  getInfoAsync :: "string \<Rightarrow> 'w \<Rightarrow> string + FileInfo"
  readAsStringAsync :: "string \<Rightarrow> 'w \<Rightarrow> string + string"
  copyAsync :: "string \<Rightarrow> string \<Rightarrow> 'w \<Rightarrow> string + 'w"
  deleteAsync :: "string \<Rightarrow> 'w \<Rightarrow> string + 'w"
  printToFileAsync :: "string \<Rightarrow> 'w \<Rightarrow> string + string \<times> 'w"
  dateNow :: "'w \<Rightarrow> string \<Rightarrow> real"
  toLocaleDateString :: "real \<Rightarrow> string"
  toFixed2 :: "real \<Rightarrow> string"
  toLowerCase :: "string \<Rightarrow> string"
  trim :: "string \<Rightarrow> string"

text \<open>
  The state of \<^verbatim>\<open>LibraryScreen\<close> in \<^verbatim>\<open>src/app/(tabs)/index.tsx\<close>: one field per
  \<^verbatim>\<open>useState\<close> variable the modelled handlers touch, and the alerts shown so far
  (title and message, oldest first).
\<close>

record Screen =
  pdfs :: "PdfDoc list"
  filteredPdfs :: "PdfDoc list"
  searchQuery :: string
  isLoadingLibrary :: bool
  isRefreshing :: bool
  selectedImages :: "string list"
  isProcessing :: bool
  showDraftModal :: bool
  pdfName :: string
  isRenameModalVisible :: bool
  renamingItem :: "PdfDoc option"
  newFileName :: string
  alerts :: "(string \<times> string) list"

section \<open>Library index: \<^verbatim>\<open>applyFilter\<close> and \<^verbatim>\<open>loadLibrary\<close>\<close>

definition applyFilter :: "'w Platform \<Rightarrow> string \<Rightarrow> PdfDoc list \<Rightarrow> Screen \<Rightarrow> Screen" where
  "applyFilter P query data st =
     (if query = [] then st\<lparr>filteredPdfs := data\<rparr>
      else st\<lparr>filteredPdfs :=
             filter (\<lambda>p. includes_str (toLowerCase P (name p)) (toLowerCase P query)) data\<rparr>)"


text \<open>
  The callback \<^verbatim>\<open>loadLibrary\<close> maps over the PDF file names. In \<^verbatim>\<open>index.tsx\<close> its
  body is wrapped in \<^verbatim>\<open>try/catch\<close>: a rejected \<^verbatim>\<open>getInfoAsync\<close> yields the sentinel
  entry. \<^verbatim>\<open>info.modificationTime || Date.now() / 1000\<close> takes the clock when the
  modification time is 0.
\<close>

definition docOfInfo :: "'w Platform \<Rightarrow> 'w \<Rightarrow> string \<Rightarrow> string \<Rightarrow> FileInfo \<Rightarrow> PdfDoc" where
  "docOfInfo P w fileName fileUri info =
     (let size = (if exists info
                  then toFixed2 P (real (size_info info) / (1024 * 1024)) @ '' MB''
                  else ''0 MB'');
          ts = (if exists info
                then (if modificationTime info \<noteq> 0 then modificationTime info
                      else dateNow P w fileUri / 1000)
                else 0)
      in \<lparr>id_doc = fileName, name = fileName, date = toLocaleDateString P (ts * 1000),
          size_doc = size, uri = fileUri, timestamp = ts\<rparr>)"

definition loadEntry :: "'w Platform \<Rightarrow> 'w \<Rightarrow> string \<Rightarrow> string \<Rightarrow> PdfDoc" where
  "loadEntry P w docDir fileName =
     (let fileUri = docDir @ fileName in
      case getInfoAsync P fileUri w of
        Inr info \<Rightarrow> docOfInfo P w fileName fileUri info
      | Inl e \<Rightarrow> \<lparr>id_doc = fileName, name = fileName, date = ''Error'', size_doc = ''0 MB'',
                  uri = fileUri, timestamp = 0\<rparr>)"

text \<open>
  \<^verbatim>\<open>file.toLowerCase().endsWith('.pdf')\<close>. The four characters of \<^verbatim>\<open>.pdf\<close> are the
  lower-case forms of \<^verbatim>\<open>.\<close>, \<^verbatim>\<open>p\<close>, \<^verbatim>\<open>P\<close>, \<^verbatim>\<open>d\<close>, \<^verbatim>\<open>D\<close>, \<^verbatim>\<open>f\<close> and \<^verbatim>\<open>F\<close> and of no other
  character, and lower-casing does not reorder text: the lower-cased name ends in
  \<^verbatim>\<open>.pdf\<close> exactly when the name ends in these characters. For this test the engine's
  method is its ASCII part, whatever else the name holds.
\<close>

definition isPdfFile :: "string \<Rightarrow> bool" where
  "isPdfFile file = endsWith (asciiLowerCase file) ''.pdf''"

text \<open>
  \<^verbatim>\<open>loadLibrary\<close> of \<^verbatim>\<open>index.tsx\<close>. \<^verbatim>\<open>Promise.all\<close> over callbacks that never reject
  resolves to their results in the order of the input array. \<^verbatim>\<open>Array.prototype.sort\<close>
  is stable; with the comparator \<^verbatim>\<open>b.timestamp - a.timestamp\<close> it is the stable sort on
  the negated timestamp. The \<^verbatim>\<open>finally\<close> block runs on every path, also after the early
  \<^verbatim>\<open>return\<close> for a missing (or empty) document directory.
\<close>

definition loadLibrary :: "'w Platform \<Rightarrow> 'w \<Rightarrow> bool \<Rightarrow> Screen \<Rightarrow> Screen" where
  "loadLibrary P w showSpinner st =
     (let st1 = (if showSpinner then st\<lparr>isLoadingLibrary := True\<rparr> else st);
          st2 =
            (case documentDirectory P of
               None \<Rightarrow> st1
             | Some docDir \<Rightarrow>
                 if docDir = [] then st1
                 else (case readDirectoryAsync P docDir w of
                         Inl e \<Rightarrow> st1
                       | Inr files \<Rightarrow>
                           (let pdfFiles = filter isPdfFile files;
                                pdfDocs = map (loadEntry P w docDir) pdfFiles;
                                sorted = sort_key (\<lambda>d. - timestamp d) pdfDocs
                            in applyFilter P (searchQuery st1) sorted (st1\<lparr>pdfs := sorted\<rparr>))))
      in st2\<lparr>isLoadingLibrary := False, isRefreshing := False\<rparr>)"

text \<open>
  \<^verbatim>\<open>loadLibrary\<close> of the second screen file (\<^verbatim>\<open>src/unnamed/part_001\<close>): the callback has
  no \<^verbatim>\<open>try/catch\<close> of its own, so one rejected \<^verbatim>\<open>getInfoAsync\<close> rejects
  \<^verbatim>\<open>Promise.all\<close> and \<^verbatim>\<open>setPdfs\<close> is not reached. The result is the argument of
  \<^verbatim>\<open>setPdfs\<close>, or \<open>None\<close> when it is not called.
\<close>

fun allFulfilled :: "(string + 'a) list \<Rightarrow> 'a list option" where
  "allFulfilled [] = Some []"
| "allFulfilled (Inl e # rs) = None"
| "allFulfilled (Inr v # rs) = map_option ((#) v) (allFulfilled rs)"

definition loadLibrary_v2 :: "'w Platform \<Rightarrow> 'w \<Rightarrow> PdfDoc list option" where
  "loadLibrary_v2 P w =
     (case documentDirectory P of
        None \<Rightarrow> None
      | Some docDir \<Rightarrow>
          if docDir = [] then None
          else (case readDirectoryAsync P docDir w of
                  Inl e \<Rightarrow> None
                | Inr files \<Rightarrow>
                    (let pdfFiles = filter isPdfFile files;
                         results = map (\<lambda>fileName.
                           map_sum id (docOfInfo P w fileName (docDir @ fileName))
                             (getInfoAsync P (docDir @ fileName) w)) pdfFiles
                     in map_option (sort_key (\<lambda>d. - timestamp d)) (allFulfilled results))))"

section \<open>Draft session: \<^verbatim>\<open>removeImage\<close> and \<^verbatim>\<open>swapImages\<close>\<close>

text \<open>
  \<^verbatim>\<open>selectedImages.filter((_, i) => i !== index)\<close> keeps the entries whose position is not
  \<open>index\<close>; the draft modal is closed when nothing is left. Indices are JavaScript
  numbers; the model takes them as integers, so that negative and too large indices
  are inputs too.
\<close>

definition removeImage :: "int \<Rightarrow> Screen \<Rightarrow> Screen" where
  "removeImage index st =
     (let newImages =
            map snd (filter (\<lambda>(i, u). int i \<noteq> index) (enumerate 0 (selectedImages st)));
          st1 = st\<lparr>selectedImages := newImages\<rparr>
      in if length newImages = 0 then st1\<lparr>showDraftModal := False\<rparr> else st1)"

text \<open>
  \<^verbatim>\<open>swapImages\<close> of \<^verbatim>\<open>index.tsx\<close>: the guard returns early; otherwise the copy of the
  array gets the two entries exchanged. The right-hand side of the destructuring
  assignment is read before either element is written.
\<close>

definition swapImages :: "int \<Rightarrow> int \<Rightarrow> Screen \<Rightarrow> Screen" where
  "swapImages fromIdx toIdx st =
     (let n = int (length (selectedImages st)) in
      if fromIdx = toIdx \<or> fromIdx < 0 \<or> toIdx < 0 \<or> fromIdx \<ge> n \<or> toIdx \<ge> n then st
      else (let old = selectedImages st;
                newImages = (old[nat fromIdx := old ! nat toIdx])[nat toIdx := old ! nat fromIdx]
            in st\<lparr>selectedImages := newImages\<rparr>))"

text \<open>
  \<^verbatim>\<open>swapImages\<close> of the second screen file has no guard. Its array accesses are written
  out with their JavaScript meaning: reading outside the array gives \<^verbatim>\<open>undefined\<close>
  (\<open>None\<close>), writing at or past the length extends the array with holes, and writing at
  a negative index sets a property and leaves the elements alone.
\<close>

definition jsGet :: "'a option list \<Rightarrow> int \<Rightarrow> 'a option" where
  "jsGet a i = (if 0 \<le> i \<and> i < int (length a) then a ! nat i else None)"

definition jsSet :: "'a option list \<Rightarrow> int \<Rightarrow> 'a option \<Rightarrow> 'a option list" where
  "jsSet a i v =
     (if i < 0 then a
      else if i < int (length a) then a[nat i := v]
      else a @ replicate (nat i - length a) None @ [v])"

definition swapImages_v2 :: "int \<Rightarrow> int \<Rightarrow> 'a option list \<Rightarrow> 'a option list" where
  "swapImages_v2 fromIdx toIdx selected =
     (let newImages = selected;
          x = jsGet newImages toIdx;
          y = jsGet newImages fromIdx
      in jsSet (jsSet newImages fromIdx x) toIdx y)"

section \<open>Reorder resolver: the \<^verbatim>\<open>onEnd\<close> handler of the drag gesture\<close>

text \<open>
  JavaScript numbers are IEEE 754 doubles: each of \<^verbatim>\<open>+\<close>, \<^verbatim>\<open>-\<close>, \<^verbatim>\<open>*\<close> and \<^verbatim>\<open>/\<close> returns the
  double nearest to the exact result. The model computes the exact result as a real
  number and hands it to \<open>rnd\<close>, the rounding of the engine, which is a parameter of the
  definitions below: they fix the operations and their order, and assume nothing
  about the rounding. The literals \<^verbatim>\<open>2\<close>, \<^verbatim>\<open>12\<close> and \<^verbatim>\<open>1.25\<close> are doubles.
  \<^verbatim>\<open>Math.round\<close> is exact: it returns the integer nearest to its argument, a half going
  towards plus infinity. The shifts, the indices and the item count are integers far
  below \<open>2^53\<close>, where the arithmetic of doubles is that of the integers: they are
  integers of the model. The handler is modelled for finite numbers and divisors other
  than zero.

  \<^verbatim>\<open>GRID_PADDING\<close> is 16 in \<^verbatim>\<open>index.tsx\<close> and 20 in the second screen file, and the
  screen width is the device's: the handler is modelled with the cell width
  \<^verbatim>\<open>ITEM_WIDTH\<close> as its parameter. \<open>onEnd_call\<close> is the call of \<^verbatim>\<open>swapImages\<close> the handler
  schedules with \<^verbatim>\<open>runOnJS\<close>, if any; \<open>onEnd\<close> runs it on the screen state of
  \<^verbatim>\<open>index.tsx\<close>. The component's property \<^verbatim>\<open>total\<close> is written \<open>totalCount\<close>.
\<close>

definition GAP :: real where
  "GAP = 12"

definition ITEM_WIDTH :: "(real \<Rightarrow> real) \<Rightarrow> real \<Rightarrow> real \<Rightarrow> real" where
  "ITEM_WIDTH rnd GRID_PADDING SCREEN_WIDTH =
     rnd (rnd (rnd (SCREEN_WIDTH - rnd (GRID_PADDING * 2)) - GAP) / 2)"

definition Math_round :: "real \<Rightarrow> int" where
  "Math_round x = \<lfloor>x + 1 / 2\<rfloor>"

definition targetIndex ::
  "(real \<Rightarrow> real) \<Rightarrow> real \<Rightarrow> real \<Rightarrow> real \<Rightarrow> int \<Rightarrow> int \<Rightarrow> int" where
  "targetIndex rnd itemWidth translationX translationY index totalCount =
     (let colShift = Math_round (rnd (translationX / rnd (itemWidth + GAP)));
          rowShift = Math_round (rnd (translationY / rnd (rnd (itemWidth * 1.25) + GAP)));
          indexShift = colShift + (rowShift * 2)
      in max 0 (min (totalCount - 1) (index + indexShift)))"

definition onEnd_call ::
  "(real \<Rightarrow> real) \<Rightarrow> real \<Rightarrow> real \<Rightarrow> real \<Rightarrow> int \<Rightarrow> int \<Rightarrow> (int \<times> int) option" where
  "onEnd_call rnd itemWidth translationX translationY index totalCount =
     (let target = targetIndex rnd itemWidth translationX translationY index totalCount
      in if target \<noteq> index then Some (index, target) else None)"

definition onEnd ::
  "(real \<Rightarrow> real) \<Rightarrow> real \<Rightarrow> real \<Rightarrow> real \<Rightarrow> int \<Rightarrow> int \<Rightarrow> Screen \<Rightarrow> Screen" where
  "onEnd rnd itemWidth translationX translationY index totalCount st =
     (case onEnd_call rnd itemWidth translationX translationY index totalCount of
        None \<Rightarrow> st
      | Some (fromIdx, toIdx) \<Rightarrow> swapImages fromIdx toIdx st)"

text \<open>
  The grid the handler works on, from the style sheets of the two files. A cell
  (\<^verbatim>\<open>imageCardContainer\<close>) is \<^verbatim>\<open>ITEM_WIDTH\<close> wide and as high as the card it holds
  (\<^verbatim>\<open>imageCard\<close>), whose \<^verbatim>\<open>aspectRatio\<close>, width over height, is \<^verbatim>\<open>0.8\<close> in \<^verbatim>\<open>index.tsx\<close> and
  \<^verbatim>\<open>0.75\<close> in the second screen file. The cells wrap (\<^verbatim>\<open>flexWrap\<close>) with the gap \<^verbatim>\<open>GAP\<close>
  between cells and between rows, two to a row: the grid is two cell widths and one
  gap wide.
\<close>

definition imageCard_aspectRatio :: real where
  "imageCard_aspectRatio = 0.8"

definition imageCard_aspectRatio_v2 :: real where
  "imageCard_aspectRatio_v2 = 0.75"

definition cellHeight :: "real \<Rightarrow> real \<Rightarrow> real" where
  "cellHeight aspectRatio cellWidth = cellWidth / aspectRatio"

section \<open>Rename coordinator\<close>

text \<open>A template literal renders a \<^verbatim>\<open>null\<close> document directory as the text \<^verbatim>\<open>null\<close>.\<close>

definition docDirString :: "'w Platform \<Rightarrow> string" where
  "docDirString P = (case documentDirectory P of None \<Rightarrow> ''null'' | Some d \<Rightarrow> d)"

definition startRename :: "PdfDoc \<Rightarrow> Screen \<Rightarrow> Screen" where
  "startRename item st =
     st\<lparr>renamingItem := Some item,
        newFileName := replaceFirst ''.pdf'' [] (name item),
        isRenameModalVisible := True\<rparr>"

text \<open>
  \<^verbatim>\<open>confirmRename\<close> of \<^verbatim>\<open>index.tsx\<close>. It returns at once without an item or with a blank
  name. Otherwise it copies to the new URI and deletes the old one; any rejection shows
  the alert \<^verbatim>\<open>Could not rename file.\<close>. There is no look at the target before the copy.
\<close>

definition confirmRename :: "'w Platform \<Rightarrow> Screen \<times> 'w \<Rightarrow> Screen \<times> 'w" where
  "confirmRename P sw =
     (let st = fst sw; w = snd sw in
      case renamingItem st of
        None \<Rightarrow> (st, w)
      | Some item \<Rightarrow>
          if trim P (newFileName st) = [] then (st, w)
          else (let newNameWithExt = trim P (newFileName st) @ ''.pdf'';
                    newUri = docDirString P @ newNameWithExt
                in case copyAsync P (uri item) newUri w of
                     Inl e \<Rightarrow> (st\<lparr>alerts := alerts st @ [(''Error'', ''Could not rename file.'')]\<rparr>, w)
                   | Inr w1 \<Rightarrow>
                       (case deleteAsync P (uri item) w1 of
                          Inl e \<Rightarrow>
                            (st\<lparr>alerts := alerts st @ [(''Error'', ''Could not rename file.'')]\<rparr>, w1)
                        | Inr w2 \<Rightarrow>
                            (loadLibrary P w2 False (st\<lparr>isRenameModalVisible := False\<rparr>), w2))))"

text \<open>
  The state of the second screen file that \<^verbatim>\<open>saveRename\<close> and \<^verbatim>\<open>generatePdf\<close> touch
  (\<open>selectedColor_hex\<close> is \<^verbatim>\<open>selectedColor.hex\<close>), and \<^verbatim>\<open>saveRename\<close> itself: it asks \<^verbatim>\<open>getInfoAsync\<close> for the target first and shows
  \<^verbatim>\<open>A file with this name already exists.\<close> when it exists. The \<^verbatim>\<open>finally\<close> block
  clears \<^verbatim>\<open>editingId\<close> on every path through the \<^verbatim>\<open>try\<close>.
\<close>

record Screen_v2 =
  pdfs_v2 :: "PdfDoc list"
  editingId :: "string option"
  editingValue :: string
  alerts_v2 :: "(string \<times> string) list"
  selectedImages_v2 :: "string list"
  isProcessing_v2 :: bool
  showDraftModal_v2 :: bool
  pdfName_v2 :: string
  selectedColor_hex :: string
  selectedFilter :: string

definition reload_v2 :: "'w Platform \<Rightarrow> 'w \<Rightarrow> Screen_v2 \<Rightarrow> Screen_v2" where
  "reload_v2 P w st = (case loadLibrary_v2 P w of None \<Rightarrow> st | Some ds \<Rightarrow> st\<lparr>pdfs_v2 := ds\<rparr>)"

definition saveRename :: "'w Platform \<Rightarrow> PdfDoc \<Rightarrow> Screen_v2 \<times> 'w \<Rightarrow> Screen_v2 \<times> 'w" where
  "saveRename P item sw =
     (let st = fst sw; w = snd sw in
      if trim P (editingValue st) = [] \<or>
         trim P (editingValue st) = replaceFirst ''.pdf'' [] (name item)
      then (st\<lparr>editingId := None\<rparr>, w)
      else (let newFileName = trim P (editingValue st) @ ''.pdf'';
                newUri = docDirString P @ newFileName;
                failed = (\<lambda>s. s\<lparr>alerts_v2 := alerts_v2 s @
                                  [(''Rename Failed'', ''Could not rename the file.'')],
                                editingId := None\<rparr>)
            in case getInfoAsync P newUri w of
                 Inl e \<Rightarrow> (failed st, w)
               | Inr info \<Rightarrow>
                   if exists info
                   then (st\<lparr>alerts_v2 := alerts_v2 st @
                                [(''Error'', ''A file with this name already exists.'')],
                            editingId := None\<rparr>, w)
                   else (case copyAsync P (uri item) newUri w of
                           Inl e \<Rightarrow> (failed st, w)
                         | Inr w1 \<Rightarrow>
                             (case deleteAsync P (uri item) w1 of
                                Inl e \<Rightarrow> (failed st, w1)
                              | Inr w2 \<Rightarrow> ((reload_v2 P w2 st)\<lparr>editingId := None\<rparr>, w2)))))"

section \<open>Conversion: \<^verbatim>\<open>generatePdf\<close>\<close>

text \<open>
  \<^verbatim>\<open>Promise.all\<close> over promises that settle in any order. \<open>rs\<close> holds what each promise
  settles to, \<open>sched\<close> the order in which they settle (positions in \<open>rs\<close>). A fulfilled
  promise stores its value in the slot of its own position; the first rejection
  rejects the whole; the result is there once every slot is filled, and never
  (\<open>None\<close>) when some promise does not settle.
\<close>

fun settle :: "(string + 'a) list \<Rightarrow> nat list \<Rightarrow> 'a option list \<Rightarrow> (string + 'a list) option" where
  "settle rs [] slots = map_option Inr (those slots)"
| "settle rs (i # sched) slots =
     (if i < length rs
      then (case rs ! i of
              Inl e \<Rightarrow> Some (Inl e)
            | Inr v \<Rightarrow> settle rs sched (slots[i := Some v]))
      else settle rs sched slots)"

definition Promise_all :: "(string + 'a) list \<Rightarrow> nat list \<Rightarrow> (string + 'a list) option" where
  "Promise_all rs sched = settle rs sched (replicate (length rs) None)"

definition dataUri :: "string \<Rightarrow> string" where
  "dataUri base64 = ''data:image/jpeg;base64,'' @ base64"

definition pageDiv :: "string \<Rightarrow> string" where
  \<open>pageDiv base64 = ''<div class="page"><img src="'' @ base64 @ ''" /></div>''\<close>

definition htmlHead :: string where
  \<open>htmlHead = [CHR 0x0A] @
     ''        <!DOCTYPE html><html><head><style>'' @ [CHR 0x0A] @
     ''          @page { size: A4; margin: 0; }'' @ [CHR 0x0A] @
     ''          body { margin: 0; background: #fff; }'' @ [CHR 0x0A] @
     ''          .page { width: 100%; height: 100vh; display: flex; justify-content: center; align-items: center; page-break-after: always; }'' @ [CHR 0x0A] @
     ''          img { max-width: 95%; max-height: 95%; object-fit: contain; }'' @ [CHR 0x0A] @
     ''        </style></head><body>'' @ [CHR 0x0A] @
     ''          ''\<close>

definition htmlTail :: string where
  \<open>htmlTail = [CHR 0x0A] @ ''        </body></html>'' @ [CHR 0x0A] @ ''      ''\<close>

definition htmlContent :: "string list \<Rightarrow> string" where
  "htmlContent base64Images = htmlHead @ concat (map pageDiv base64Images) @ htmlTail"

text \<open>
  \<^verbatim>\<open>pdfName.replace(/[^a-z0-9_\-]/gi, '_') || 'Doc'\<close>: every character outside the class
  becomes an underscore, and an empty result gives way to \<^verbatim>\<open>Doc\<close>.
\<close>

definition isNameChar :: "char \<Rightarrow> bool" where
  "isNameChar c = (c \<in> set (lowerLetters @ upperLetters @ digits @ ''_-''))"

definition cleanName :: "string \<Rightarrow> string" where
  "cleanName nm =
     (let replaced = map (\<lambda>c. if isNameChar c then c else CHR ''_'') nm
      in if replaced = [] then ''Doc'' else replaced)"

definition finalName :: "string \<Rightarrow> string" where
  "finalName nm = cleanName nm @ ''.pdf''"

text \<open>
  \<^verbatim>\<open>generatePdf\<close> of \<^verbatim>\<open>index.tsx\<close>. \<open>sched\<close> is the order in which the reads of the
  selected images complete. Every rejection inside the \<^verbatim>\<open>try\<close> block lands in the one
  \<^verbatim>\<open>catch\<close>, which shows the alert \<^verbatim>\<open>Failed\<close> with the error's message; the \<^verbatim>\<open>finally\<close>
  block clears \<^verbatim>\<open>isProcessing\<close>. \<open>generatePdf_start\<close> is the state while the handler is
  waiting. The result is \<open>None\<close> when the reads never all settle.
\<close>

definition generatePdf_start :: "Screen \<Rightarrow> Screen" where
  "generatePdf_start st = st\<lparr>isProcessing := True\<rparr>"

definition generatePdf_catch :: "string \<Rightarrow> Screen \<Rightarrow> Screen" where
  "generatePdf_catch message st =
     st\<lparr>alerts := alerts st @ [(''Failed'', message)], isProcessing := False\<rparr>"

definition generatePdf :: "'w Platform \<Rightarrow> nat list \<Rightarrow> Screen \<times> 'w \<Rightarrow> (Screen \<times> 'w) option" where
  "generatePdf P sched sw =
     (let st = fst sw; w = snd sw in
      if length (selectedImages st) = 0 then Some (st, w)
      else (let st1 = generatePdf_start st;
                reads = map (\<lambda>u. map_sum id dataUri (readAsStringAsync P u w))
                          (selectedImages st1)
            in case Promise_all reads sched of
                 None \<Rightarrow> None
               | Some (Inl message) \<Rightarrow> Some (generatePdf_catch message st1, w)
               | Some (Inr base64Images) \<Rightarrow>
                   (case printToFileAsync P (htmlContent base64Images) w of
                      Inl message \<Rightarrow> Some (generatePdf_catch message st1, w)
                    | Inr (tempUri, w1) \<Rightarrow>
                        (case copyAsync P tempUri (docDirString P @ finalName (pdfName st1)) w1 of
                           Inl message \<Rightarrow> Some (generatePdf_catch message st1, w1)
                         | Inr w2 \<Rightarrow>
                             Some ((loadLibrary P w2 True st1)
                                     \<lparr>showDraftModal := False, selectedImages := [],
                                      isProcessing := False\<rparr>, w2)))))"

text \<open>
  \<^verbatim>\<open>generatePdf\<close> of the second screen file. It reads and joins the images as the
  first does; the page description carries the sheet colour and the image filter, and
  the stored name is the trimmed draft name, or \<^verbatim>\<open>Document\<close> when that is blank,
  followed by \<^verbatim>\<open>.pdf\<close>.
\<close>

definition filterCss_of :: "string \<Rightarrow> string" where
  "filterCss_of flt =
     (let filterCss = [];
          filterCss = (if flt = ''bw'' then ''filter: grayscale(100%) contrast(1.5);''
                       else filterCss);
          filterCss = (if flt = ''vivid'' then ''filter: saturate(1.5) contrast(1.2);''
                       else filterCss)
      in filterCss)"

definition htmlHead_v2 :: "string \<Rightarrow> string \<Rightarrow> string" where
  \<open>htmlHead_v2 hex filterCss = [CHR 0x0A] @
     ''        <!DOCTYPE html><html><head><style>'' @ [CHR 0x0A] @
     ''          @page { size: A4; margin: 0; }'' @ [CHR 0x0A] @
     ''          body { margin: 0; background-color: '' @ hex @ ''; }'' @ [CHR 0x0A] @
     ''          .page { width: 100vw; height: 100vh; display: flex; justify-content: center; align-items: center; page-break-after: always; }'' @ [CHR 0x0A] @
     ''          img { max-width: 90%; max-height: 90%; object-fit: contain; border-radius: 4px; box-shadow: 0 4px 12px rgba(0,0,0,0.15); '' @ filterCss @ '' }'' @ [CHR 0x0A] @
     ''        </style></head><body>'' @ [CHR 0x0A] @
     ''          ''\<close>

definition htmlContent_v2 :: "string \<Rightarrow> string \<Rightarrow> string list \<Rightarrow> string" where
  "htmlContent_v2 hex filterCss base64Images =
     htmlHead_v2 hex filterCss @ concat (map pageDiv base64Images) @ htmlTail"

definition finalName_v2 :: "'w Platform \<Rightarrow> string \<Rightarrow> string" where
  "finalName_v2 P nm = (if trim P nm = [] then ''Document'' else trim P nm) @ ''.pdf''"

definition generatePdf_v2 ::
  "'w Platform \<Rightarrow> nat list \<Rightarrow> Screen_v2 \<times> 'w \<Rightarrow> (Screen_v2 \<times> 'w) option" where
  "generatePdf_v2 P sched sw =
     (let st = fst sw; w = snd sw in
      if length (selectedImages_v2 st) = 0 then Some (st, w)
      else (let st1 = st\<lparr>isProcessing_v2 := True\<rparr>;
                catch = (\<lambda>message. st1\<lparr>alerts_v2 := alerts_v2 st1 @ [(''Failed'', message)],
                                          isProcessing_v2 := False\<rparr>);
                reads = map (\<lambda>u. map_sum id dataUri (readAsStringAsync P u w))
                          (selectedImages_v2 st1)
            in case Promise_all reads sched of
                 None \<Rightarrow> None
               | Some (Inl message) \<Rightarrow> Some (catch message, w)
               | Some (Inr base64Images) \<Rightarrow>
                   (case printToFileAsync P
                           (htmlContent_v2 (selectedColor_hex st1)
                              (filterCss_of (selectedFilter st1)) base64Images) w of
                      Inl message \<Rightarrow> Some (catch message, w)
                    | Inr (tempUri, w1) \<Rightarrow>
                        (case copyAsync P tempUri
                                (docDirString P @ finalName_v2 P (pdfName_v2 st1)) w1 of
                           Inl message \<Rightarrow> Some (catch message, w1)
                         | Inr w2 \<Rightarrow>
                             Some ((reload_v2 P w2 st1)
                                     \<lparr>showDraftModal_v2 := False, selectedImages_v2 := [],
                                      isProcessing_v2 := False\<rparr>, w2)))))"

text \<open>
  The phases of document creation, read off the screen state: converting while
  \<^verbatim>\<open>isProcessing\<close> is set, reviewing the draft while the draft modal is shown, idle
  otherwise.
\<close>

datatype Phase = Idle | Reviewing | Converting

definition phase :: "Screen \<Rightarrow> Phase" where
  "phase st = (if isProcessing st then Converting
               else if showDraftModal st then Reviewing else Idle)"

section \<open>Notions of the specification\<close>

text \<open>
  Two characters are the same letter when they are equal or one is the capital of the
  other; two strings are the same ignoring case when they are so position by position;
  a string contains a query ignoring case when one of its substrings is the query
  ignoring case.
\<close>

definition sameLetter :: "char \<Rightarrow> char \<Rightarrow> bool" where
  "sameLetter c d =
     (c = d \<or> (c, d) \<in> set (zip upperLetters lowerLetters)
            \<or> (d, c) \<in> set (zip upperLetters lowerLetters))"

definition sameIgnoringCase :: "string \<Rightarrow> string \<Rightarrow> bool" where
  "sameIgnoringCase u v = list_all2 sameLetter u v"


text \<open>
  The reorder resolver of the specification, on a grid of cells \<open>cellWidth\<close> by
  \<open>cellHeight\<close> set \<open>gap\<close> apart, two to a row: the displacement is divided by the cell's
  width, and height, plus the gap and rounded to the nearest integer; the target is the
  source index plus the column shift plus twice the row shift, clamped into
  \<open>[0, total - 1]\<close>.
\<close>

definition resolveTarget :: "real \<Rightarrow> real \<Rightarrow> real \<Rightarrow> real \<Rightarrow> real \<Rightarrow> int \<Rightarrow> int \<Rightarrow> int" where
  "resolveTarget cellW cellH gap dx dy index totalCount =
     (let columnShift = Math_round (dx / (cellW + gap));
          rowShift = Math_round (dy / (cellH + gap))
      in max 0 (min (totalCount - 1) (index + (columnShift + rowShift * 2))))"

text \<open>
  The pages of a page description: its page elements, in the order of the text, each
  given by the source of its image. A page element opens with
  \<^verbatim>\<open><div class="page"><img src="\<close>, and the source runs up to the next double quote.
  The style of the class \<^verbatim>\<open>page\<close> (full height, a page break after each) makes a page
  element one page of the print. Base64 text is made of letters, digits and
  \<^verbatim>\<open>+\<close>, \<^verbatim>\<open>/\<close>, \<^verbatim>\<open>=\<close>.
\<close>

definition pageOpen :: string where
  \<open>pageOpen = ''<div class="page"><img src="''\<close>

function pagesOf :: "string \<Rightarrow> string list" where
  "pagesOf [] = []"
| "pagesOf (c # s) =
     (if prefix pageOpen (c # s)
      then takeWhile (\<lambda>x. x \<noteq> CHR 0x22) (drop (length pageOpen) (c # s))
             # pagesOf (dropWhile (\<lambda>x. x \<noteq> CHR 0x22) (drop (length pageOpen) (c # s)))
      else pagesOf s)"
  by pat_completeness auto
termination
proof (relation "measure length")
  show "wf (measure length)" by simp
next
  fix c :: char and s :: string
  have "length (dropWhile (\<lambda>x. x \<noteq> CHR 0x22) (drop (length pageOpen) (c # s)))
          \<le> length (drop (length pageOpen) (c # s))"
    by (rule length_dropWhile_le)
  also have "\<dots> < length (c # s)" by (simp add: pageOpen_def)
  finally show "(dropWhile (\<lambda>x. x \<noteq> CHR 0x22) (drop (length pageOpen) (c # s)), c # s)
                  \<in> measure length" by simp
next
  fix c :: char and s :: string
  show "(s, c # s) \<in> measure length" by simp
qed

declare pagesOf.simps [simp del]

definition isBase64Char :: "char \<Rightarrow> bool" where
  "isBase64Char c = (c \<in> set (upperLetters @ lowerLetters @ digits @ ''+/=''))"

text \<open>The modification time the platform reports for a document's file; whether
  a file's metadata can be read, exists and carries a non-zero modification time; and
  lists in descending order of modification time, and of timestamp.\<close>

definition mtimeOf :: "'w Platform \<Rightarrow> 'w \<Rightarrow> PdfDoc \<Rightarrow> real" where
  "mtimeOf P w d =
     (case getInfoAsync P (uri d) w of Inr info \<Rightarrow> modificationTime info | Inl e \<Rightarrow> 0)"

definition readableStamped :: "'w Platform \<Rightarrow> 'w \<Rightarrow> string \<Rightarrow> bool" where
  "readableStamped P w fileUri =
     (case getInfoAsync P fileUri w of
        Inr info \<Rightarrow> exists info \<and> modificationTime info \<noteq> 0
      | Inl e \<Rightarrow> False)"

definition sortedByMtimeDesc :: "'w Platform \<Rightarrow> 'w \<Rightarrow> PdfDoc list \<Rightarrow> bool" where
  "sortedByMtimeDesc P w ds = sorted_wrt (\<lambda>a b. mtimeOf P w b \<le> mtimeOf P w a) ds"

definition sortedByTimestampDesc :: "PdfDoc list \<Rightarrow> bool" where
  "sortedByTimestampDesc ds = sorted_wrt (\<lambda>a b. timestamp b \<le> timestamp a) ds"

text \<open>A stored file name of the form \<^verbatim>\<open>^[A-Za-z0-9_-]+\.pdf$\<close>.\<close>

definition matchesPdfName :: "string \<Rightarrow> bool" where
  "matchesPdfName s = (\<exists>stem. s = stem @ ''.pdf'' \<and> stem \<noteq> [] \<and> list_all isNameChar stem)"

section \<open>An in-memory platform for concrete runs\<close>

text \<open>
  A small file system to run the handlers on: files by URI, in directory order, each
  with its content and modification time. \<^verbatim>\<open>copyAsync\<close> replaces an existing target, as
  the platform's does; reading or deleting a missing file rejects. The print service
  stores the page description it is given as the content of its output file.
\<close>

record MemFile =
  content :: string
  mtime :: real

type_synonym Disk = "(string \<times> MemFile) list"

definition memInfo :: "string \<Rightarrow> Disk \<Rightarrow> string + FileInfo" where
  "memInfo u disk =
     Inr (case map_of disk u of
            None \<Rightarrow> \<lparr>exists = False, size_info = 0, modificationTime = 0\<rparr>
          | Some f \<Rightarrow> \<lparr>exists = True, size_info = length (content f),
                       modificationTime = mtime f\<rparr>)"

definition memCopy :: "real \<Rightarrow> string \<Rightarrow> string \<Rightarrow> Disk \<Rightarrow> string + Disk" where
  "memCopy nowMs src dst disk =
     (case map_of disk src of
        None \<Rightarrow> Inl ''File does not exist''
      | Some f \<Rightarrow> Inr (AList.update dst (f\<lparr>mtime := nowMs / 1000\<rparr>) disk))"

definition memDelete :: "string \<Rightarrow> Disk \<Rightarrow> string + Disk" where
  "memDelete u disk =
     (if map_of disk u = None then Inl ''File does not exist'' else Inr (AList.delete u disk))"

definition memRead :: "string \<Rightarrow> Disk \<Rightarrow> string + string" where
  "memRead u disk =
     (case map_of disk u of None \<Rightarrow> Inl ''File does not exist'' | Some f \<Rightarrow> Inr (content f))"

definition memPlatform :: "string \<Rightarrow> real \<Rightarrow> Disk Platform" where
  "memPlatform docDir nowMs =
     \<lparr>documentDirectory = Some docDir,
      readDirectoryAsync = (\<lambda>d disk. Inr (map (drop (length d)) (filter (prefix d) (map fst disk)))),
      getInfoAsync = memInfo,
      readAsStringAsync = memRead,
      copyAsync = memCopy nowMs,
      deleteAsync = memDelete,
      printToFileAsync = (\<lambda>html disk.
        Inr (''/cache/print.pdf'',
             AList.update ''/cache/print.pdf'' \<lparr>content = html, mtime = nowMs / 1000\<rparr> disk)),
      dateNow = (\<lambda>disk u. nowMs),
      toLocaleDateString = (\<lambda>t. ''date''),
      toFixed2 = (\<lambda>x. ''0.00''),
      toLowerCase = asciiLowerCase,
      trim = asciiTrim\<rparr>"

definition initialScreen :: Screen where
  "initialScreen =
     \<lparr>pdfs = [], filteredPdfs = [], searchQuery = [], isLoadingLibrary = True,
      isRefreshing = False, selectedImages = [], isProcessing = False,
      showDraftModal = False, pdfName = [], isRenameModalVisible = False,
      renamingItem = None, newFileName = [], alerts = []\<rparr>"

text \<open>Example directories: one with ordinary files, one holding a file whose
  modification time is 0; and a platform whose metadata read of one file rejects.\<close>

definition demoDisk :: Disk where
  "demoDisk =
     [(''/docs/a.pdf'', \<lparr>content = ''AAAA'', mtime = 100\<rparr>),
      (''/docs/notes.txt'', \<lparr>content = ''n'', mtime = 900\<rparr>),
      (''/docs/B.PDF'', \<lparr>content = ''BB'', mtime = 500\<rparr>)]"

definition brokenPlatform :: "Disk Platform" where
  "brokenPlatform =
     (memPlatform ''/docs/'' 1000000)
       \<lparr>getInfoAsync := (\<lambda>u disk. if u = ''/docs/a.pdf'' then Inl ''EIO'' else memInfo u disk)\<rparr>"

definition epochDisk :: Disk where
  "epochDisk =
     [(''/docs/old.pdf'', \<lparr>content = ''AAAA'', mtime = 0\<rparr>),
      (''/docs/notes.txt'', \<lparr>content = ''n'', mtime = 900\<rparr>),
      (''/docs/New.PDF'', \<lparr>content = ''BB'', mtime = 500\<rparr>)]"

text \<open>Two drafts under review: three selected images, and one.\<close>

definition draftABC :: Screen where
  "draftABC = initialScreen\<lparr>selectedImages := [''A'', ''B'', ''C''], showDraftModal := True\<rparr>"

definition draftA :: Screen where
  "draftA = initialScreen\<lparr>selectedImages := [''A''], showDraftModal := True\<rparr>"

text \<open>A disk with three images, a draft under review over given images, and the
  base64 text the in-memory platform reads for a URI.\<close>

definition imageDisk :: Disk where
  "imageDisk =
     [(''/img/a.jpg'', \<lparr>content = ''QQ'', mtime = 1\<rparr>),
      (''/img/b.jpg'', \<lparr>content = ''Qg'', mtime = 2\<rparr>),
      (''/img/c.jpg'', \<lparr>content = ''Qw'', mtime = 3\<rparr>)]"

definition reviewing :: "string list \<Rightarrow> Screen" where
  "reviewing images =
     initialScreen\<lparr>isLoadingLibrary := False, selectedImages := images,
                   showDraftModal := True, pdfName := ''My Doc #1''\<rparr>"

definition encOf :: "Disk \<Rightarrow> string \<Rightarrow> string" where
  "encOf disk u = (case map_of disk u of None \<Rightarrow> [] | Some f \<Rightarrow> content f)"

text \<open>A platform whose print service rejects.\<close>

definition noPrintPlatform :: "Disk Platform" where
  "noPrintPlatform =
     (memPlatform ''/docs/'' 5000)\<lparr>printToFileAsync := (\<lambda>html disk. Inl ''Printing failed'')\<rparr>"

text \<open>Two stored documents, the first of them as a library entry, and the rename
  dialogs of the two screen files open on it with a typed name.\<close>

definition twoDocs :: Disk where
  "twoDocs =
     [(''/docs/Doc1.pdf'', \<lparr>content = ''one'', mtime = 10\<rparr>),
      (''/docs/Doc2.pdf'', \<lparr>content = ''two'', mtime = 20\<rparr>)]"

definition doc1 :: PdfDoc where
  "doc1 = \<lparr>id_doc = ''Doc1.pdf'', name = ''Doc1.pdf'', date = ''date'', size_doc = ''0.00 MB'',
           uri = ''/docs/Doc1.pdf'', timestamp = 10\<rparr>"

definition renamingDoc1 :: "string \<Rightarrow> Screen" where
  "renamingDoc1 typed = (startRename doc1 initialScreen)\<lparr>newFileName := typed\<rparr>"

definition editingDoc1 :: "string \<Rightarrow> Screen_v2" where
  "editingDoc1 typed =
     \<lparr>pdfs_v2 = [], editingId = Some ''Doc1.pdf'', editingValue = typed, alerts_v2 = [],
      selectedImages_v2 = [], isProcessing_v2 = False, showDraftModal_v2 = False,
      pdfName_v2 = [], selectedColor_hex = ''#FFFFFF'', selectedFilter = ''none''\<rparr>"

definition reviewing_v2 :: "string list \<Rightarrow> Screen_v2" where
  "reviewing_v2 images =
     \<lparr>pdfs_v2 = [], editingId = None, editingValue = [], alerts_v2 = [],
      selectedImages_v2 = images, isProcessing_v2 = False, showDraftModal_v2 = True,
      pdfName_v2 = '' Trip 1 '', selectedColor_hex = ''#FFFBF2'', selectedFilter = ''bw''\<rparr>"


definition accentLowerCase :: "string \<Rightarrow> string" where
  "accentLowerCase s = map (\<lambda>c. if c = CHR 0xC9 then CHR 0xE9 else asciiLowerCaseChar c) s"

definition accentPlatform :: "Disk Platform" where
  "accentPlatform = (memPlatform ''/docs/'' 5000)\<lparr>toLowerCase := accentLowerCase\<rparr>"

definition resumeDoc :: PdfDoc where
  "resumeDoc = \<lparr>id_doc = ''R'' @ [CHR 0xC9] @ ''SUM'' @ [CHR 0xC9] @ ''.pdf'',
                name = ''R'' @ [CHR 0xC9] @ ''SUM'' @ [CHR 0xC9] @ ''.pdf'', date = ''date'',
                size_doc = ''0.00 MB'',
                uri = ''/docs/R'' @ [CHR 0xC9] @ ''SUM'' @ [CHR 0xC9] @ ''.pdf'', timestamp = 7\<rparr>"

section \<open>Properties of the library index\<close>


lemma fold_pairs:
  assumes df: "distinct (map fst z)" and ds: "distinct (map snd z)"
    and dj: "set (map fst z) \<inter> set (map snd z) = {}"
  shows "((case map_of z c of None \<Rightarrow> c | Some l \<Rightarrow> l) = (case map_of z d of None \<Rightarrow> d | Some l \<Rightarrow> l))
         \<longleftrightarrow> (c = d \<or> (c, d) \<in> set z \<or> (d, c) \<in> set z)"
proof -
  have inj: "a = b" if "(a, l) \<in> set z" "(b, l) \<in> set z" for a b l
  proof -
    have "inj_on snd (set z)" using ds by (simp add: distinct_map)
    from inj_onD [OF this, of "(a, l)" "(b, l)"] that show ?thesis by simp
  qed
  have some: "map_of z x = Some y \<longleftrightarrow> (x, y) \<in> set z" for x y
    using df by simp
  have none: "map_of z x = None \<longleftrightarrow> x \<notin> fst ` set z" for x
    by (simp add: map_of_eq_None_iff)
  have apart: "\<not> ((x, y) \<in> set z \<and> (y, y') \<in> set z)" for x y y'
    using dj by (force simp: image_iff)
  have notin: "(x, y) \<notin> set z" if "map_of z x = None" for x y
    using that by (force simp: map_of_eq_None_iff)
  show ?thesis
  proof (cases "map_of z c")
    case None
    note cN = None
    show ?thesis
    proof (cases "map_of z d")
      case None
      with cN notin show ?thesis by simp
    next
      case (Some m)
      have "(d, m) \<in> set z" using Some by (simp add: some)
      moreover have "c \<noteq> d" using cN Some by auto
      moreover have "(d, c) \<in> set z \<longleftrightarrow> m = c"
        using Some some [of d c] by auto
      ultimately show ?thesis using cN Some notin [OF cN] by auto
    qed
  next
    case (Some l)
    note cS = Some
    have cl: "(c, l) \<in> set z" using cS by (simp add: some)
    show ?thesis
    proof (cases "map_of z d")
      case None
      have "c \<noteq> d" using cS None by auto
      moreover have "(c, d) \<in> set z \<longleftrightarrow> l = d"
        using cS some [of c d] by auto
      ultimately show ?thesis using cS None notin [OF None] by auto
    next
      case (Some m)
      have dm: "(d, m) \<in> set z" using Some by (simp add: some)
      have "(c, d) \<notin> set z" using apart [of c d m] dm by blast
      moreover have "(d, c) \<notin> set z" using apart [of d c l] cl by blast
      moreover have "l = m \<longleftrightarrow> c = d"
        using inj [of c l d] cl dm cS Some by auto
      ultimately show ?thesis using cS Some by simp
    qed
  qed
qed

lemma letters_ok:
  "distinct (map fst (zip upperLetters lowerLetters))"
  "distinct (map snd (zip upperLetters lowerLetters))"
  "set (map fst (zip upperLetters lowerLetters)) \<inter> set (map snd (zip upperLetters lowerLetters)) = {}"
  by (simp_all add: upperLetters_def lowerLetters_def)

lemma asciiLowerCaseChar_eq_iff:
  "asciiLowerCaseChar c = asciiLowerCaseChar d \<longleftrightarrow> sameLetter c d"
  unfolding asciiLowerCaseChar_def sameLetter_def
  by (rule fold_pairs [OF letters_ok])

lemma asciiLowerCase_eq_iff:
  "asciiLowerCase u = asciiLowerCase v \<longleftrightarrow> sameIgnoringCase u v"
  unfolding asciiLowerCase_def sameIgnoringCase_def
proof (induction u arbitrary: v)
  case Nil
  then show ?case by auto
next
  case (Cons a u)
  then show ?case by (cases v) (simp_all add: asciiLowerCaseChar_eq_iff)
qed




lemma memPlatform_engine [simp]:
  "toLowerCase (memPlatform docDir nowMs) = asciiLowerCase"
  "trim (memPlatform docDir nowMs) = asciiTrim"
  by (simp_all add: memPlatform_def)






text \<open>
  With an engine that lower-cases the accented capital, the query \<^verbatim>\<open>r\<close>\<open>0xE9\<close>\<^verbatim>\<open>sum\<close>\<open>0xE9\<close>
  finds the document named \<^verbatim>\<open>R\<close>\<open>0xC9\<close>\<^verbatim>\<open>SUM\<close>\<open>0xC9\<close>\<^verbatim>\<open>.pdf\<close>: the filter follows the engine's
  notion of case, not the ASCII one.
\<close>

lemma applyFilter_accented_name:
  "filteredPdfs (applyFilter accentPlatform (''r'' @ [CHR 0xE9] @ ''sum'' @ [CHR 0xE9])
       [doc1, resumeDoc] initialScreen) = [resumeDoc]"
  by (simp add: applyFilter_def accentPlatform_def accentLowerCase_def asciiLowerCaseChar_def
      upperLetters_def lowerLetters_def doc1_def resumeDoc_def)

lemma endsWith_suffix: "endsWith s t = suffix t s"
  unfolding endsWith_def
  by (metis append_eq_conv_conj append_take_drop_id suffix_def suffix_length_le length_append diff_add_inverse2 suffixI)

lemma asciiLowerCase_pdf: "asciiLowerCase ''.pdf'' = ''.pdf''"
  by (simp add: asciiLowerCase_def asciiLowerCaseChar_def upperLetters_def lowerLetters_def)

lemma isPdfFile_iff:
  "isPdfFile f \<longleftrightarrow> (\<exists>stem ext. f = stem @ ext \<and> sameIgnoringCase ext ''.pdf'')"
proof -
  have "isPdfFile f \<longleftrightarrow> (\<exists>zs. map asciiLowerCaseChar f = zs @ ''.pdf'')"
    by (simp add: isPdfFile_def endsWith_suffix suffix_def asciiLowerCase_def)
  also have "\<dots> \<longleftrightarrow> (\<exists>stem ext. f = stem @ ext \<and> asciiLowerCase ext = asciiLowerCase ''.pdf'')"
  proof
    assume "\<exists>zs. map asciiLowerCaseChar f = zs @ ''.pdf''"
    then obtain zs where "map asciiLowerCaseChar f = zs @ ''.pdf''" ..
    then obtain us vs where "f = us @ vs" "map asciiLowerCaseChar vs = ''.pdf''"
      by (metis map_eq_append_conv)
    then have "f = us @ vs \<and> asciiLowerCase vs = asciiLowerCase ''.pdf''"
      by (metis asciiLowerCase_def asciiLowerCase_pdf)
    then show "\<exists>stem ext. f = stem @ ext \<and> asciiLowerCase ext = asciiLowerCase ''.pdf''"
      by blast
  next
    assume "\<exists>stem ext. f = stem @ ext \<and> asciiLowerCase ext = asciiLowerCase ''.pdf''"
    then obtain stem ext where "f = stem @ ext" "map asciiLowerCaseChar ext = ''.pdf''"
      by (metis asciiLowerCase_def asciiLowerCase_pdf)
    then have "map asciiLowerCaseChar f = map asciiLowerCaseChar stem @ ''.pdf''" by simp
    then show "\<exists>zs. map asciiLowerCaseChar f = zs @ ''.pdf''" ..
  qed
  finally show ?thesis by (simp add: asciiLowerCase_eq_iff)
qed

lemma loadEntry_name [simp]: "name (loadEntry P w docDir f) = f"
  and loadEntry_uri [simp]: "uri (loadEntry P w docDir f) = docDir @ f"
  and loadEntry_id [simp]: "id_doc (loadEntry P w docDir f) = f"
  by (simp_all add: loadEntry_def docOfInfo_def Let_def split: sum.splits)

lemma loadEntry_timestamp:
  "timestamp (loadEntry P w docDir f) =
     (case getInfoAsync P (docDir @ f) w of
        Inl e \<Rightarrow> 0
      | Inr info \<Rightarrow>
          if exists info
          then (if modificationTime info \<noteq> 0 then modificationTime info
                else dateNow P w (docDir @ f) / 1000)
          else 0)"
  by (simp add: loadEntry_def docOfInfo_def Let_def split: sum.splits)

lemma loadLibrary_pdfs:
  assumes "documentDirectory P = Some docDir" "docDir \<noteq> []"
    and "readDirectoryAsync P docDir w = Inr files"
  shows "pdfs (loadLibrary P w b st) =
           sort_key (\<lambda>d. - timestamp d) (map (loadEntry P w docDir) (filter isPdfFile files))"
  using assms by (simp add: loadLibrary_def applyFilter_def Let_def)

lemma applyFilter_frame [simp]:
  "pdfs (applyFilter P q S st) = pdfs st" "searchQuery (applyFilter P q S st) = searchQuery st"
  by (simp_all add: applyFilter_def)

lemma loadLibrary_searchQuery [simp]: "searchQuery (loadLibrary P w b st) = searchQuery st"
  by (simp add: loadLibrary_def Let_def split: option.splits sum.splits)

lemma loadLibrary_idem:
  "loadLibrary P w b' (loadLibrary P w b st) = loadLibrary P w b st"
  by (simp add: loadLibrary_def applyFilter_def Let_def split: option.splits sum.splits)

lemma sorted_desc_sort_key:
  "sorted_wrt (\<lambda>a b. timestamp b \<le> timestamp a) (sort_key (\<lambda>d. - timestamp d) (xs :: PdfDoc list))"
proof -
  have "sorted (map (\<lambda>d. - timestamp d) (sort_key (\<lambda>d. - timestamp d) xs))"
    by (rule sorted_sort_key)
  then show ?thesis by (simp add: sorted_map)
qed

lemma mtimeOf_timestamp:
  assumes "readableStamped P w (docDir @ f)"
  shows "timestamp (loadEntry P w docDir f) = mtimeOf P w (loadEntry P w docDir f)"
proof -
  from assms obtain info where i: "getInfoAsync P (docDir @ f) w = Inr info"
    "exists info" "modificationTime info \<noteq> 0"
    by (auto simp: readableStamped_def split: sum.splits)
  then show ?thesis by (simp add: loadEntry_timestamp mtimeOf_def)
qed

lemma loadEntry_again:
  assumes "getInfoAsync P' (docDir @ f) w' = getInfoAsync P (docDir @ f) w"
    and "readableStamped P w (docDir @ f)"
    and "toLocaleDateString P' = toLocaleDateString P" "toFixed2 P' = toFixed2 P"
  shows "loadEntry P' w' docDir f = loadEntry P w docDir f"
proof -
  from assms(2) obtain info where i: "getInfoAsync P (docDir @ f) w = Inr info"
    "exists info" "modificationTime info \<noteq> 0"
    by (auto simp: readableStamped_def split: sum.splits)
  then show ?thesis
    using assms(1,3,4) by (simp add: loadEntry_def docOfInfo_def Let_def)
qed

lemma loadLibrary_again:
  assumes dir: "documentDirectory P = Some docDir" "docDir \<noteq> []"
    and ls: "readDirectoryAsync P docDir w = Inr files"
    and dir': "documentDirectory P' = Some docDir"
    and ls': "readDirectoryAsync P' docDir w' = Inr files"
    and fmt: "toLocaleDateString P' = toLocaleDateString P" "toFixed2 P' = toFixed2 P"
    and same: "\<forall>f \<in> set files. isPdfFile f \<longrightarrow>
                 getInfoAsync P' (docDir @ f) w' = getInfoAsync P (docDir @ f) w
                 \<and> readableStamped P w (docDir @ f)"
  shows "pdfs (loadLibrary P' w' b' st') = pdfs (loadLibrary P w b st)"
proof -
  have "map (loadEntry P' w' docDir) (filter isPdfFile files)
      = map (loadEntry P w docDir) (filter isPdfFile files)"
  proof (rule map_cong [OF refl])
    fix f assume "f \<in> set (filter isPdfFile files)"
    with same have "getInfoAsync P' (docDir @ f) w' = getInfoAsync P (docDir @ f) w"
      "readableStamped P w (docDir @ f)" by auto
    then show "loadEntry P' w' docDir f = loadEntry P w docDir f"
      using fmt by (rule loadEntry_again)
  qed
  then show ?thesis
    by (simp only: loadLibrary_pdfs [OF dir ls] loadLibrary_pdfs [OF dir' dir(2) ls'])
qed

text \<open>
  Claim C2, as amended. When the document directory is listed as \<open>files\<close>, the library
  after \<^verbatim>\<open>loadLibrary\<close> holds exactly one document per listed name that ends in
  \<^verbatim>\<open>.pdf\<close> ignoring case; it is sorted by the documents' timestamps, descending;
  when every such file's metadata is readable, says the file exists and carries a
  non-zero modification time, that is the order of the files' modification times,
  descending, and a later \<^verbatim>\<open>loadLibrary\<close> that finds the same listing and the same
  metadata yields the same list, whatever the clock and the screen state; and a second
  \<^verbatim>\<open>loadLibrary\<close> on the same world leaves the screen state as the first left it.
\<close>

theorem loadLibrary_sorted_by_timestamp:
  assumes dir: "documentDirectory P = Some docDir" "docDir \<noteq> []"
    and ls: "readDirectoryAsync P docDir w = Inr files"
  shows "mset (map name (pdfs (loadLibrary P w b st))) = mset (filter isPdfFile files)
       \<and> (\<forall>f. isPdfFile f \<longleftrightarrow> (\<exists>stem ext. f = stem @ ext \<and> sameIgnoringCase ext ''.pdf''))
       \<and> sortedByTimestampDesc (pdfs (loadLibrary P w b st))
       \<and> ((\<forall>f \<in> set files. isPdfFile f \<longrightarrow> readableStamped P w (docDir @ f)) \<longrightarrow>
            sortedByMtimeDesc P w (pdfs (loadLibrary P w b st)))
       \<and> (documentDirectory P' = Some docDir \<and> readDirectoryAsync P' docDir w' = Inr files
            \<and> toLocaleDateString P' = toLocaleDateString P \<and> toFixed2 P' = toFixed2 P
            \<and> (\<forall>f \<in> set files. isPdfFile f \<longrightarrow>
                  getInfoAsync P' (docDir @ f) w' = getInfoAsync P (docDir @ f) w
                  \<and> readableStamped P w (docDir @ f)) \<longrightarrow>
            pdfs (loadLibrary P' w' b' st') = pdfs (loadLibrary P w b st))
       \<and> loadLibrary P w b' (loadLibrary P w b st) = loadLibrary P w b st"
proof -
  let ?ds = "map (loadEntry P w docDir) (filter isPdfFile files)"
  have eq: "pdfs (loadLibrary P w b st) = sort_key (\<lambda>d. - timestamp d) ?ds"
    by (rule loadLibrary_pdfs [OF dir ls])
  have names: "mset (map name (pdfs (loadLibrary P w b st))) = mset (filter isPdfFile files)"
  proof -
    have "mset (map name (sort_key (\<lambda>d. - timestamp d) ?ds)) = mset (map name ?ds)"
      by (metis mset_map mset_sort)
    also have "map name ?ds = filter isPdfFile files"
      by (simp add: comp_def)
    finally show ?thesis by (simp add: eq)
  qed
  have srt: "sorted_wrt (\<lambda>a b. timestamp b \<le> timestamp a) (pdfs (loadLibrary P w b st))"
    unfolding eq by (rule sorted_desc_sort_key)
  then have srt': "sortedByTimestampDesc (pdfs (loadLibrary P w b st))"
    by (simp only: sortedByTimestampDesc_def)
  have byM: "sorted_wrt (\<lambda>a b. mtimeOf P w b \<le> mtimeOf P w a) (pdfs (loadLibrary P w b st))"
    if ok: "\<forall>f \<in> set files. isPdfFile f \<longrightarrow> readableStamped P w (docDir @ f)"
  proof -
    have "\<forall>d \<in> set (pdfs (loadLibrary P w b st)). timestamp d = mtimeOf P w d"
      unfolding eq using ok by (auto simp: mtimeOf_timestamp)
    with srt show ?thesis
      by (metis (no_types, lifting) sorted_wrt_mono_rel)
  qed
  have again: "pdfs (loadLibrary P' w' b' st') = pdfs (loadLibrary P w b st)"
    if a: "documentDirectory P' = Some docDir \<and> readDirectoryAsync P' docDir w' = Inr files
            \<and> toLocaleDateString P' = toLocaleDateString P \<and> toFixed2 P' = toFixed2 P
            \<and> (\<forall>f \<in> set files. isPdfFile f \<longrightarrow>
                  getInfoAsync P' (docDir @ f) w' = getInfoAsync P (docDir @ f) w
                  \<and> readableStamped P w (docDir @ f))"
    by (rule loadLibrary_again [OF dir ls a [THEN conjunct1] a [THEN conjunct2, THEN conjunct1]
          a [THEN conjunct2, THEN conjunct2, THEN conjunct1]
          a [THEN conjunct2, THEN conjunct2, THEN conjunct2, THEN conjunct1]
          a [THEN conjunct2, THEN conjunct2, THEN conjunct2, THEN conjunct2]])
  have byM': "(\<forall>f \<in> set files. isPdfFile f \<longrightarrow> readableStamped P w (docDir @ f)) \<longrightarrow>
            sortedByMtimeDesc P w (pdfs (loadLibrary P w b st))"
    unfolding sortedByMtimeDesc_def by (rule impI) (rule byM)
  have again': "documentDirectory P' = Some docDir \<and> readDirectoryAsync P' docDir w' = Inr files
            \<and> toLocaleDateString P' = toLocaleDateString P \<and> toFixed2 P' = toFixed2 P
            \<and> (\<forall>f \<in> set files. isPdfFile f \<longrightarrow>
                  getInfoAsync P' (docDir @ f) w' = getInfoAsync P (docDir @ f) w
                  \<and> readableStamped P w (docDir @ f)) \<longrightarrow>
            pdfs (loadLibrary P' w' b' st') = pdfs (loadLibrary P w b st)"
    by (rule impI) (rule again)
  show ?thesis
    by (intro conjI allI names srt' byM' again' isPdfFile_iff loadLibrary_idem)
qed

lemmas run_simps =
  loadLibrary_def memPlatform_def isPdfFile_def endsWith_def asciiLowerCase_def asciiLowerCaseChar_def
  upperLetters_def lowerLetters_def loadEntry_def docOfInfo_def memInfo_def applyFilter_def
  initialScreen_def mtimeOf_def Let_def

text \<open>
  Claim C2 as stated fails on a directory with a file whose modification time is 0:
  \<^verbatim>\<open>loadLibrary\<close> stamps it with the clock and lists it first, before a file
  modified later, so the list is not in descending order of modification time; and a
  refresh of the same directory at a later time stamps it anew, so the second list is
  not the first.
\<close>

lemma epoch_pdfs:
  "pdfs (loadLibrary (memPlatform ''/docs/'' 1000000) epochDisk True initialScreen) =
     [\<lparr>id_doc = ''old.pdf'', name = ''old.pdf'', date = ''date'', size_doc = ''0.00 MB'',
       uri = ''/docs/old.pdf'', timestamp = 1000\<rparr>,
      \<lparr>id_doc = ''New.PDF'', name = ''New.PDF'', date = ''date'', size_doc = ''0.00 MB'',
       uri = ''/docs/New.PDF'', timestamp = 500\<rparr>]"
  by (simp add: run_simps epochDisk_def)

lemma epoch_pdfs_later:
  "pdfs (loadLibrary (memPlatform ''/docs/'' 2000000) epochDisk True initialScreen) =
     [\<lparr>id_doc = ''old.pdf'', name = ''old.pdf'', date = ''date'', size_doc = ''0.00 MB'',
       uri = ''/docs/old.pdf'', timestamp = 2000\<rparr>,
      \<lparr>id_doc = ''New.PDF'', name = ''New.PDF'', date = ''date'', size_doc = ''0.00 MB'',
       uri = ''/docs/New.PDF'', timestamp = 500\<rparr>]"
  by (simp add: run_simps epochDisk_def)

theorem loadLibrary_mtime_counterexample:
  "map name (pdfs (loadLibrary (memPlatform ''/docs/'' 1000000) epochDisk True initialScreen))
     = [''old.pdf'', ''New.PDF'']
   \<and> map (mtimeOf (memPlatform ''/docs/'' 1000000) epochDisk)
         (pdfs (loadLibrary (memPlatform ''/docs/'' 1000000) epochDisk True initialScreen))
     = [0, 500]
   \<and> \<not> sortedByMtimeDesc (memPlatform ''/docs/'' 1000000) epochDisk
         (pdfs (loadLibrary (memPlatform ''/docs/'' 1000000) epochDisk True initialScreen))
   \<and> pdfs (loadLibrary (memPlatform ''/docs/'' 2000000) epochDisk True initialScreen)
     \<noteq> pdfs (loadLibrary (memPlatform ''/docs/'' 1000000) epochDisk True initialScreen)"
  unfolding epoch_pdfs epoch_pdfs_later sortedByMtimeDesc_def
  by (simp add: mtimeOf_def memPlatform_def memInfo_def epochDisk_def)

theorem loadLibrary_sorted_witness:
  "documentDirectory (memPlatform ''/docs/'' 1000000) = Some ''/docs/''
   \<and> readDirectoryAsync (memPlatform ''/docs/'' 1000000) ''/docs/'' demoDisk
       = Inr [''a.pdf'', ''notes.txt'', ''B.PDF'']
   \<and> mset (map name (pdfs (loadLibrary (memPlatform ''/docs/'' 1000000) demoDisk True initialScreen)))
       = mset [''a.pdf'', ''B.PDF'']
   \<and> map timestamp (pdfs (loadLibrary (memPlatform ''/docs/'' 1000000) demoDisk True initialScreen))
       = [500, 100]
   \<and> sortedByMtimeDesc (memPlatform ''/docs/'' 1000000) demoDisk
         (pdfs (loadLibrary (memPlatform ''/docs/'' 1000000) demoDisk True initialScreen))
   \<and> pdfs (loadLibrary (memPlatform ''/docs/'' 2000000) demoDisk False draftABC)
       = pdfs (loadLibrary (memPlatform ''/docs/'' 1000000) demoDisk True initialScreen)"
proof -
  let ?P = "memPlatform ''/docs/'' 1000000"
  let ?P' = "memPlatform ''/docs/'' 2000000"
  have d: "documentDirectory ?P = Some ''/docs/''" "''/docs/'' \<noteq> []"
    by (simp_all add: memPlatform_def)
  have l: "readDirectoryAsync ?P ''/docs/'' demoDisk = Inr [''a.pdf'', ''notes.txt'', ''B.PDF'']"
    by (simp add: memPlatform_def demoDisk_def)
  have ok: "\<forall>f \<in> set [''a.pdf'', ''notes.txt'', ''B.PDF''].
              isPdfFile f \<longrightarrow> readableStamped ?P demoDisk (''/docs/'' @ f)"
    by (simp add: readableStamped_def memPlatform_def memInfo_def demoDisk_def)
  have later: "documentDirectory ?P' = Some ''/docs/''
      \<and> readDirectoryAsync ?P' ''/docs/'' demoDisk = Inr [''a.pdf'', ''notes.txt'', ''B.PDF'']
      \<and> toLocaleDateString ?P' = toLocaleDateString ?P \<and> toFixed2 ?P' = toFixed2 ?P
      \<and> (\<forall>f \<in> set [''a.pdf'', ''notes.txt'', ''B.PDF'']. isPdfFile f \<longrightarrow>
            getInfoAsync ?P' (''/docs/'' @ f) demoDisk = getInfoAsync ?P (''/docs/'' @ f) demoDisk
            \<and> readableStamped ?P demoDisk (''/docs/'' @ f))"
    by (simp add: readableStamped_def memPlatform_def memInfo_def demoDisk_def)
  have ts: "map timestamp (pdfs (loadLibrary ?P demoDisk True initialScreen)) = [500, 100]"
    by (simp add: run_simps demoDisk_def)
  have pdf: "filter isPdfFile [''a.pdf'', ''notes.txt'', ''B.PDF''] = [''a.pdf'', ''B.PDF'']"
    by (simp add: isPdfFile_def endsWith_def asciiLowerCase_def asciiLowerCaseChar_def
        upperLetters_def lowerLetters_def)
  note T = loadLibrary_sorted_by_timestamp [OF d l, of True initialScreen ?P' demoDisk False draftABC]
  have names: "mset (map name (pdfs (loadLibrary ?P demoDisk True initialScreen)))
                 = mset [''a.pdf'', ''B.PDF'']"
    using T [THEN conjunct1] by (simp only: pdf)
  have srt: "sortedByMtimeDesc ?P demoDisk (pdfs (loadLibrary ?P demoDisk True initialScreen))"
    using T [THEN conjunct2, THEN conjunct2, THEN conjunct2, THEN conjunct1] ok by (rule mp)
  have again: "pdfs (loadLibrary ?P' demoDisk False draftABC)
                 = pdfs (loadLibrary ?P demoDisk True initialScreen)"
    using T [THEN conjunct2, THEN conjunct2, THEN conjunct2, THEN conjunct2, THEN conjunct1] later
    by (rule mp)
  show ?thesis
    by (intro conjI d(1) l names ts srt again)
qed

section \<open>A failed metadata read\<close>

lemma loadLibrary_length:
  assumes "documentDirectory P = Some docDir" "docDir \<noteq> []"
    and "readDirectoryAsync P docDir w = Inr files"
  shows "length (pdfs (loadLibrary P w b st)) = length (filter isPdfFile files)"
  by (simp add: loadLibrary_pdfs [OF assms])

lemma loadEntry_cong:
  assumes "getInfoAsync P' (docDir @ g) w = getInfoAsync P (docDir @ g) w"
    and "dateNow P' = dateNow P" "toLocaleDateString P' = toLocaleDateString P"
    and "toFixed2 P' = toFixed2 P"
  shows "loadEntry P' w docDir g = loadEntry P w docDir g"
  using assms by (simp add: loadEntry_def docOfInfo_def Let_def split: sum.splits)

lemma loadLibrary_others:
  assumes dir: "documentDirectory P = Some docDir" "docDir \<noteq> []"
    and ls: "readDirectoryAsync P docDir w = Inr files"
  shows "filter (\<lambda>d. uri d \<noteq> docDir @ f)
           (pdfs (loadLibrary (P\<lparr>getInfoAsync := (getInfoAsync P)(docDir @ f := r)\<rparr>) w b st))
       = filter (\<lambda>d. uri d \<noteq> docDir @ f) (pdfs (loadLibrary P w b st))"
proof -
  let ?P' = "P\<lparr>getInfoAsync := (getInfoAsync P)(docDir @ f := r)\<rparr>"
  let ?fs = "filter isPdfFile files"
  have dir': "documentDirectory ?P' = Some docDir" and ls': "readDirectoryAsync ?P' docDir w = Inr files"
    using dir ls by simp_all
  have A: "pdfs (loadLibrary ?P' w b st) = sort_key (\<lambda>d. - timestamp d) (map (loadEntry ?P' w docDir) ?fs)"
    by (rule loadLibrary_pdfs [OF dir' dir(2) ls'])
  have B: "pdfs (loadLibrary P w b st) = sort_key (\<lambda>d. - timestamp d) (map (loadEntry P w docDir) ?fs)"
    by (rule loadLibrary_pdfs [OF dir ls])
  have "filter (\<lambda>d. uri d \<noteq> docDir @ f) (map (loadEntry ?P' w docDir) ?fs)
      = map (loadEntry ?P' w docDir) (filter (\<lambda>g. g \<noteq> f) ?fs)"
    by (simp add: filter_map comp_def)
  also have "\<dots> = map (loadEntry P w docDir) (filter (\<lambda>g. g \<noteq> f) ?fs)"
  proof (rule map_cong [OF refl])
    fix g assume "g \<in> set (filter (\<lambda>g. g \<noteq> f) ?fs)"
    then have "g \<noteq> f" by simp
    then show "loadEntry ?P' w docDir g = loadEntry P w docDir g"
      by (intro loadEntry_cong) simp_all
  qed
  also have "\<dots> = filter (\<lambda>d. uri d \<noteq> docDir @ f) (map (loadEntry P w docDir) ?fs)"
    by (simp add: filter_map comp_def)
  finally have C: "filter (\<lambda>d. uri d \<noteq> docDir @ f) (map (loadEntry ?P' w docDir) ?fs)
      = filter (\<lambda>d. uri d \<noteq> docDir @ f) (map (loadEntry P w docDir) ?fs)" .
  show ?thesis
    by (simp only: A B filter_sort C)
qed

text \<open>
  Claim C3. When the metadata read of one listed PDF file rejects, \<^verbatim>\<open>loadLibrary\<close> of
  \<^verbatim>\<open>index.tsx\<close> still completes with one document per listed PDF file; the file of the
  failed read is there with the size \<^verbatim>\<open>0 MB\<close>, the date \<^verbatim>\<open>Error\<close> and the timestamp 0;
  and the other documents, and their order, are what they are whatever that one read
  returns.
\<close>

theorem loadLibrary_metadata_failure:
  assumes dir: "documentDirectory P = Some docDir" "docDir \<noteq> []"
    and ls: "readDirectoryAsync P docDir w = Inr files"
    and f: "f \<in> set files" "isPdfFile f"
    and fail: "getInfoAsync P (docDir @ f) w = Inl e"
  shows "\<lparr>id_doc = f, name = f, date = ''Error'', size_doc = ''0 MB'', uri = docDir @ f,
          timestamp = 0\<rparr> \<in> set (pdfs (loadLibrary P w b st))
       \<and> length (pdfs (loadLibrary P w b st)) = length (filter isPdfFile files)
       \<and> (\<forall>r. filter (\<lambda>d. uri d \<noteq> docDir @ f)
                 (pdfs (loadLibrary (P\<lparr>getInfoAsync := (getInfoAsync P)(docDir @ f := r)\<rparr>) w b st))
              = filter (\<lambda>d. uri d \<noteq> docDir @ f) (pdfs (loadLibrary P w b st)))"
proof -
  have "loadEntry P w docDir f =
          \<lparr>id_doc = f, name = f, date = ''Error'', size_doc = ''0 MB'', uri = docDir @ f,
           timestamp = 0\<rparr>"
    using fail by (simp add: loadEntry_def)
  moreover have "loadEntry P w docDir f \<in> set (pdfs (loadLibrary P w b st))"
    using f by (simp add: loadLibrary_pdfs [OF dir ls])
  ultimately have "\<lparr>id_doc = f, name = f, date = ''Error'', size_doc = ''0 MB'', uri = docDir @ f,
          timestamp = 0\<rparr> \<in> set (pdfs (loadLibrary P w b st))"
    by (simp only:)
  then show ?thesis
    by (intro conjI allI loadLibrary_length [OF dir ls] loadLibrary_others [OF dir ls])
qed

theorem loadLibrary_metadata_failure_witness:
  "getInfoAsync brokenPlatform ''/docs/a.pdf'' demoDisk = Inl ''EIO''
   \<and> \<lparr>id_doc = ''a.pdf'', name = ''a.pdf'', date = ''Error'', size_doc = ''0 MB'',
       uri = ''/docs/a.pdf'', timestamp = 0\<rparr>
       \<in> set (pdfs (loadLibrary brokenPlatform demoDisk True initialScreen))
   \<and> length (pdfs (loadLibrary brokenPlatform demoDisk True initialScreen)) = 2
   \<and> map name (pdfs (loadLibrary brokenPlatform demoDisk True initialScreen))
       = [''B.PDF'', ''a.pdf'']"
proof -
  have d: "documentDirectory brokenPlatform = Some ''/docs/''" "''/docs/'' \<noteq> []"
    by (simp_all add: brokenPlatform_def memPlatform_def)
  have l: "readDirectoryAsync brokenPlatform ''/docs/'' demoDisk
             = Inr [''a.pdf'', ''notes.txt'', ''B.PDF'']"
    by (simp add: brokenPlatform_def memPlatform_def demoDisk_def)
  have pdf: "filter isPdfFile [''a.pdf'', ''notes.txt'', ''B.PDF''] = [''a.pdf'', ''B.PDF'']"
    by (simp add: isPdfFile_def endsWith_def asciiLowerCase_def asciiLowerCaseChar_def
        upperLetters_def lowerLetters_def)
  have f: "''a.pdf'' \<in> set [''a.pdf'', ''notes.txt'', ''B.PDF'']" "isPdfFile ''a.pdf''"
    by (simp_all add: isPdfFile_def endsWith_def asciiLowerCase_def asciiLowerCaseChar_def
        upperLetters_def lowerLetters_def)
  have e: "getInfoAsync brokenPlatform (''/docs/'' @ ''a.pdf'') demoDisk = Inl ''EIO''"
    by (simp add: brokenPlatform_def)
  note T = loadLibrary_metadata_failure [OF d l f e, of True initialScreen]
  have m: "\<lparr>id_doc = ''a.pdf'', name = ''a.pdf'', date = ''Error'', size_doc = ''0 MB'',
       uri = ''/docs/a.pdf'', timestamp = 0\<rparr>
       \<in> set (pdfs (loadLibrary brokenPlatform demoDisk True initialScreen))"
    using T [THEN conjunct1] by simp
  have n: "length (pdfs (loadLibrary brokenPlatform demoDisk True initialScreen)) = 2"
    using T [THEN conjunct2, THEN conjunct1] by (simp only: pdf) simp
  have o: "map name (pdfs (loadLibrary brokenPlatform demoDisk True initialScreen))
       = [''B.PDF'', ''a.pdf'']"
    by (simp add: brokenPlatform_def run_simps demoDisk_def)
  show ?thesis
    using e m n o by simp
qed

section \<open>Properties of the draft session\<close>

lemma remove_enumerate:
  "map snd (filter (\<lambda>(i, u). int i \<noteq> index) (enumerate m xs)) =
     (if int m \<le> index \<and> index < int (m + length xs)
      then take (nat index - m) xs @ drop (Suc (nat index - m)) xs else xs)"
proof (induction xs arbitrary: m)
  case Nil
  then show ?case by simp
next
  case (Cons x xs)
  show ?case
  proof (cases "int m = index")
    case True
    then have "map snd (filter (\<lambda>(i, u). int i \<noteq> index) (enumerate (Suc m) xs)) = xs"
      using Cons [of "Suc m"] by simp
    with True show ?thesis by auto
  next
    case False
    show ?thesis
    proof (cases "int (Suc m) \<le> index \<and> index < int (Suc m + length xs)")
      case True
      then have "nat index - m = Suc (nat index - Suc m)" by linarith
      with True False Cons [of "Suc m"] show ?thesis by simp
    next
      case out: False
      with False Cons [of "Suc m"] show ?thesis by auto
    qed
  qed
qed

lemma removeImage_images:
  assumes "0 \<le> index" "index < int (length (selectedImages st))"
  shows "selectedImages (removeImage index st) =
           take (nat index) (selectedImages st) @ drop (Suc (nat index)) (selectedImages st)"
  using assms by (simp add: removeImage_def Let_def remove_enumerate)

lemma removeImage_modal:
  "showDraftModal (removeImage index st) =
     (if selectedImages (removeImage index st) = [] then False else showDraftModal st)"
  by (simp add: removeImage_def Let_def)

lemma removeImage_frame:
  "removeImage index st =
     st\<lparr>selectedImages := selectedImages (removeImage index st),
        showDraftModal := showDraftModal (removeImage index st)\<rparr>"
  by (simp add: removeImage_def Let_def)

text \<open>
  Claim C6. \<^verbatim>\<open>removeImage\<close> at a position of the draft deletes exactly that entry: the
  entries before it keep their positions, the entries after it move down by one, and
  nothing else of the screen state changes but the draft modal, which is closed exactly
  when the draft has become empty. On a draft of one image it leaves the draft empty
  and the modal closed.
\<close>

theorem removeImage_deletes_entry:
  assumes lo: "0 \<le> index" and hi: "index < int (length (selectedImages st))"
  shows "selectedImages (removeImage index st) =
           take (nat index) (selectedImages st) @ drop (Suc (nat index)) (selectedImages st)
       \<and> length (selectedImages (removeImage index st)) = length (selectedImages st) - 1
       \<and> (\<forall>j < nat index. selectedImages (removeImage index st) ! j = selectedImages st ! j)
       \<and> (\<forall>j. nat index \<le> j \<and> j < length (selectedImages st) - 1 \<longrightarrow>
              selectedImages (removeImage index st) ! j = selectedImages st ! Suc j)
       \<and> showDraftModal (removeImage index st) =
           (if selectedImages (removeImage index st) = [] then False else showDraftModal st)
       \<and> (length (selectedImages st) = 1 \<longrightarrow>
              selectedImages (removeImage index st) = [] \<and> \<not> showDraftModal (removeImage index st))
       \<and> removeImage index st =
           st\<lparr>selectedImages := selectedImages (removeImage index st),
              showDraftModal := showDraftModal (removeImage index st)\<rparr>"
proof -
  let ?xs = "selectedImages st" and ?k = "nat index"
  have k: "?k < length ?xs" using lo hi by simp
  have eq: "selectedImages (removeImage index st) = take ?k ?xs @ drop (Suc ?k) ?xs"
    by (rule removeImage_images [OF lo hi])
  have len: "length (selectedImages (removeImage index st)) = length ?xs - 1"
    unfolding eq using k by simp
  have before: "\<forall>j < ?k. selectedImages (removeImage index st) ! j = ?xs ! j"
    unfolding eq using k by (simp add: nth_append)
  have after: "\<forall>j. ?k \<le> j \<and> j < length ?xs - 1 \<longrightarrow>
                 selectedImages (removeImage index st) ! j = ?xs ! Suc j"
    unfolding eq using k by (auto simp: nth_append min_def)
  have single: "length ?xs = 1 \<longrightarrow>
      selectedImages (removeImage index st) = [] \<and> \<not> showDraftModal (removeImage index st)"
    using len by (auto simp: removeImage_modal)
  show ?thesis
    using eq len before after single removeImage_modal [of index st] removeImage_frame [of index st]
    by (intro conjI) 
qed


theorem removeImage_witness:
  "(0::int) \<le> 0 \<and> (0::int) < int (length (selectedImages draftA))
   \<and> selectedImages (removeImage 0 draftA) = []
   \<and> \<not> showDraftModal (removeImage 0 draftA)
   \<and> selectedImages (removeImage 1 draftABC) = [''A'', ''C'']
   \<and> showDraftModal (removeImage 1 draftABC)"
proof -
  have lo: "(0::int) \<le> 0" and hi: "(0::int) < int (length (selectedImages draftA))"
    by (simp_all add: draftA_def initialScreen_def)
  have one: "length (selectedImages draftA) = 1"
    by (simp add: draftA_def initialScreen_def)
  note T = removeImage_deletes_entry [OF lo hi]
  from T one have "selectedImages (removeImage 0 draftA) = [] \<and> \<not> showDraftModal (removeImage 0 draftA)"
    by blast
  moreover have "selectedImages (removeImage 1 draftABC) = [''A'', ''C'']
      \<and> showDraftModal (removeImage 1 draftABC)"
    by (simp add: removeImage_def draftABC_def initialScreen_def Let_def)
  ultimately show ?thesis using lo hi by blast
qed

lemma swapImages_noop:
  assumes "fromIdx = toIdx \<or> fromIdx < 0 \<or> toIdx < 0
           \<or> fromIdx \<ge> int (length (selectedImages st)) \<or> toIdx \<ge> int (length (selectedImages st))"
  shows "swapImages fromIdx toIdx st = st"
  using assms by (auto simp: swapImages_def Let_def)

lemma swapImages_images:
  assumes "fromIdx \<noteq> toIdx" "0 \<le> fromIdx" "0 \<le> toIdx"
    and "fromIdx < int (length (selectedImages st))" "toIdx < int (length (selectedImages st))"
  shows "swapImages fromIdx toIdx st =
           st\<lparr>selectedImages :=
                (selectedImages st)[nat fromIdx := selectedImages st ! nat toIdx,
                                    nat toIdx := selectedImages st ! nat fromIdx]\<rparr>"
  using assms by (simp add: swapImages_def Let_def)

lemma swap_twice:
  assumes "i < length xs" "j < length xs"
  shows "(xs[i := xs ! j, j := xs ! i])[i := xs[i := xs ! j, j := xs ! i] ! j,
                                        j := xs[i := xs ! j, j := xs ! i] ! i] = xs"
  using assms by (auto simp: list_eq_iff_nth_eq nth_list_update)

lemma swapImages_involution: "swapImages i j (swapImages i j st) = st"
proof (cases "i = j \<or> i < 0 \<or> j < 0 \<or> i \<ge> int (length (selectedImages st))
                \<or> j \<ge> int (length (selectedImages st))")
  case True
  then show ?thesis by (simp add: swapImages_noop)
next
  case False
  then have r: "i \<noteq> j" "0 \<le> i" "0 \<le> j" "i < int (length (selectedImages st))"
    "j < int (length (selectedImages st))" by auto
  let ?st' = "swapImages i j st"
  have 1: "?st' = st\<lparr>selectedImages :=
                (selectedImages st)[nat i := selectedImages st ! nat j,
                                    nat j := selectedImages st ! nat i]\<rparr>"
    by (rule swapImages_images [OF r])
  have len: "length (selectedImages ?st') = length (selectedImages st)"
    by (simp add: 1)
  have 2: "swapImages i j ?st' = ?st'\<lparr>selectedImages :=
                (selectedImages ?st')[nat i := selectedImages ?st' ! nat j,
                                    nat j := selectedImages ?st' ! nat i]\<rparr>"
    by (rule swapImages_images) (use r len in simp_all)
  have "nat i < length (selectedImages st)" "nat j < length (selectedImages st)"
    using r by simp_all
  from swap_twice [OF this] show ?thesis
    by (simp add: 2) (simp add: 1)
qed

lemma swapImages_v2_inrange:
  assumes "0 \<le> i" "0 \<le> j" "i < int (length xs)" "j < int (length xs)"
  shows "swapImages_v2 i j (map Some xs) = map Some (xs[nat i := xs ! nat j, nat j := xs ! nat i])"
  using assms by (simp add: swapImages_v2_def jsGet_def jsSet_def Let_def map_update)

text \<open>
  Claim C5. \<^verbatim>\<open>swapImages\<close> of \<^verbatim>\<open>index.tsx\<close> leaves the screen state as it is when the two
  indices are equal or one of them is outside the draft; otherwise it exchanges the
  entries at the two positions and touches nothing else; applied twice it restores the
  state; and on the draft \<open>[a, b, c]\<close> the swap of positions 0 and 2 gives \<open>[c, b, a]\<close>.
  The unguarded \<^verbatim>\<open>swapImages\<close> of the second screen file computes the same draft
  whenever both indices are inside the draft.
\<close>

theorem swapImages_exchanges:
  "((fromIdx = toIdx \<or> fromIdx < 0 \<or> toIdx < 0
        \<or> fromIdx \<ge> int (length (selectedImages st)) \<or> toIdx \<ge> int (length (selectedImages st)))
      \<longrightarrow> swapImages fromIdx toIdx st = st)
   \<and> (fromIdx \<noteq> toIdx \<and> 0 \<le> fromIdx \<and> 0 \<le> toIdx
        \<and> fromIdx < int (length (selectedImages st)) \<and> toIdx < int (length (selectedImages st))
      \<longrightarrow> length (selectedImages (swapImages fromIdx toIdx st)) = length (selectedImages st)
        \<and> selectedImages (swapImages fromIdx toIdx st) ! nat fromIdx = selectedImages st ! nat toIdx
        \<and> selectedImages (swapImages fromIdx toIdx st) ! nat toIdx = selectedImages st ! nat fromIdx
        \<and> (\<forall>k. k < length (selectedImages st) \<and> k \<noteq> nat fromIdx \<and> k \<noteq> nat toIdx \<longrightarrow>
              selectedImages (swapImages fromIdx toIdx st) ! k = selectedImages st ! k)
        \<and> swapImages fromIdx toIdx st =
              st\<lparr>selectedImages := selectedImages (swapImages fromIdx toIdx st)\<rparr>)
   \<and> swapImages fromIdx toIdx (swapImages fromIdx toIdx st) = st
   \<and> selectedImages (swapImages 0 2 (st\<lparr>selectedImages := [a, b, c]\<rparr>)) = [c, b, a]
   \<and> (0 \<le> fromIdx \<and> 0 \<le> toIdx
        \<and> fromIdx < int (length (selectedImages st)) \<and> toIdx < int (length (selectedImages st))
      \<longrightarrow> swapImages_v2 fromIdx toIdx (map Some (selectedImages st))
            = map Some (selectedImages (swapImages fromIdx toIdx st)))"
proof (intro conjI impI)
  assume "fromIdx = toIdx \<or> fromIdx < 0 \<or> toIdx < 0
        \<or> fromIdx \<ge> int (length (selectedImages st)) \<or> toIdx \<ge> int (length (selectedImages st))"
  then show "swapImages fromIdx toIdx st = st" by (rule swapImages_noop)
next
  show "swapImages fromIdx toIdx (swapImages fromIdx toIdx st) = st"
    by (rule swapImages_involution)
next
  show "selectedImages (swapImages 0 2 (st\<lparr>selectedImages := [a, b, c]\<rparr>)) = [c, b, a]"
    by (simp add: swapImages_def Let_def)
next
  assume r: "0 \<le> fromIdx \<and> 0 \<le> toIdx
        \<and> fromIdx < int (length (selectedImages st)) \<and> toIdx < int (length (selectedImages st))"
  show "swapImages_v2 fromIdx toIdx (map Some (selectedImages st))
            = map Some (selectedImages (swapImages fromIdx toIdx st))"
  proof (cases "fromIdx = toIdx")
    case True
    with r show ?thesis
      by (simp add: swapImages_v2_inrange swapImages_noop)
  next
    case False
    with r show ?thesis
      by (simp add: swapImages_v2_inrange swapImages_images)
  qed
next
  assume r: "fromIdx \<noteq> toIdx \<and> 0 \<le> fromIdx \<and> 0 \<le> toIdx
        \<and> fromIdx < int (length (selectedImages st)) \<and> toIdx < int (length (selectedImages st))"
  then have eq: "swapImages fromIdx toIdx st =
           st\<lparr>selectedImages :=
                (selectedImages st)[nat fromIdx := selectedImages st ! nat toIdx,
                                    nat toIdx := selectedImages st ! nat fromIdx]\<rparr>"
    by (intro swapImages_images) simp_all
  have ne: "nat fromIdx \<noteq> nat toIdx" using r by auto
  have lt: "nat fromIdx < length (selectedImages st)" "nat toIdx < length (selectedImages st)"
    using r by auto
  show "length (selectedImages (swapImages fromIdx toIdx st)) = length (selectedImages st)"
    by (simp add: eq)
  show "selectedImages (swapImages fromIdx toIdx st) ! nat fromIdx = selectedImages st ! nat toIdx"
    using ne lt by (simp add: eq nth_list_update)
  show "selectedImages (swapImages fromIdx toIdx st) ! nat toIdx = selectedImages st ! nat fromIdx"
    using ne lt by (simp add: eq nth_list_update)
  show "\<forall>k. k < length (selectedImages st) \<and> k \<noteq> nat fromIdx \<and> k \<noteq> nat toIdx \<longrightarrow>
              selectedImages (swapImages fromIdx toIdx st) ! k = selectedImages st ! k"
    by (simp add: eq nth_list_update)
  show "swapImages fromIdx toIdx st =
              st\<lparr>selectedImages := selectedImages (swapImages fromIdx toIdx st)\<rparr>"
    by (simp add: eq)
qed

theorem swapImages_witness:
  "selectedImages (swapImages 0 2 draftABC) = [''C'', ''B'', ''A'']
   \<and> swapImages 0 2 (swapImages 0 2 draftABC) = draftABC
   \<and> swapImages 1 1 draftABC = draftABC
   \<and> swapImages 0 3 draftABC = draftABC
   \<and> swapImages (-1) 2 draftABC = draftABC
   \<and> swapImages_v2 0 2 [Some ''A'', Some ''B'', Some ''C''] = [Some ''C'', Some ''B'', Some ''A'']"
proof -
  note T = swapImages_exchanges [of 0 2 draftABC "''A''" "''B''" "''C''"]
  have abc: "draftABC\<lparr>selectedImages := [''A'', ''B'', ''C'']\<rparr> = draftABC"
    by (simp add: draftABC_def)
  have 1: "selectedImages (swapImages 0 2 draftABC) = [''C'', ''B'', ''A'']"
    using T [THEN conjunct2, THEN conjunct2, THEN conjunct2, THEN conjunct1] by (simp only: abc)
  have 2: "swapImages 0 2 (swapImages 0 2 draftABC) = draftABC"
    using T [THEN conjunct2, THEN conjunct2, THEN conjunct1] .
  have 3: "swapImages 1 1 draftABC = draftABC" "swapImages 0 3 draftABC = draftABC"
    "swapImages (-1) 2 draftABC = draftABC"
    by (simp_all add: swapImages_def draftABC_def initialScreen_def Let_def)
  have 4: "swapImages_v2 0 2 [Some ''A'', Some ''B'', Some ''C''] = [Some ''C'', Some ''B'', Some ''A'']"
    by (simp add: swapImages_v2_def jsGet_def jsSet_def Let_def)
  show ?thesis using 1 2 3 4 by blast
qed

section \<open>Properties of the reorder resolver\<close>

lemma Math_round_nearest: "\<bar>x - real_of_int (Math_round x)\<bar> \<le> \<bar>x - real_of_int k\<bar>"
proof -
  let ?r = "Math_round x"
  have lo: "real_of_int ?r \<le> x + 1 / 2" and hi: "x + 1 / 2 < real_of_int ?r + 1"
    unfolding Math_round_def by linarith+
  show ?thesis
  proof (cases "k = ?r")
    case True
    then show ?thesis by simp
  next
    case False
    then consider "k \<le> ?r - 1" | "?r + 1 \<le> k" by linarith
    then show ?thesis
    proof cases
      case 1
      then have "real_of_int k \<le> real_of_int ?r - 1" by linarith
      with lo hi show ?thesis by linarith
    next
      case 2
      then have "real_of_int ?r + 1 \<le> real_of_int k" by linarith
      with lo hi show ?thesis by linarith
    qed
  qed
qed

lemma targetIndex_clamped:
  assumes "1 \<le> totalCount"
  shows "0 \<le> targetIndex rnd w tx ty index totalCount"
    and "targetIndex rnd w tx ty index totalCount \<le> totalCount - 1"
  using assms by (simp_all add: targetIndex_def Let_def)

text \<open>
  The height of a cell against its width: \<open>1.25\<close> times the width in \<^verbatim>\<open>index.tsx\<close>, the
  factor the handler multiplies \<^verbatim>\<open>ITEM_WIDTH\<close> by, and four thirds of the width in the
  second screen file, whose handler multiplies by \<open>1.25\<close> all the same.
\<close>

lemma cellHeight_ratio:
  "cellHeight imageCard_aspectRatio w = w * 1.25"
  "cellHeight imageCard_aspectRatio_v2 w = w * (4 / 3)"
  by (simp_all add: cellHeight_def imageCard_aspectRatio_def imageCard_aspectRatio_v2_def)

text \<open>
  Claim C7, on the handler of the second screen file. On a screen 412 wide the cell
  is 180 wide and 240 high. Four images are in the draft and the first is dragged
  down by 122.203125 and released. Every number the handler computes on the way is a
  double, so whatever the rounding of the engine does elsewhere, it leaves these as they
  are. The handler divides by \<open>180 * 1.25 + 12 = 237\<close>, gets the row shift 1 and calls
  \<^verbatim>\<open>swapImages(0, 2)\<close>, which exchanges the first and the third image. The displacement
  divided by the cell height plus the gap, 252, is less than a half in size: the row
  shift of the specification is 0, its target is the source, and no swap is due. In
  \<^verbatim>\<open>index.tsx\<close> a cell 180 wide is 225 high, and there the same call is the one the
  specification asks for.
\<close>

theorem onEnd_row_shift_stale:
  assumes r: "\<forall>x \<in> set [40, 372, 360, 180, 192, 0, 225, 237, 33 / 64]. rnd x = x"
  shows "ITEM_WIDTH rnd 20 412 = 180
       \<and> cellHeight imageCard_aspectRatio_v2 (ITEM_WIDTH rnd 20 412) = 240
       \<and> onEnd_call rnd (ITEM_WIDTH rnd 20 412) 0 (7821 / 64) 0 4 = Some (0, 2)
       \<and> \<bar>(7821 / 64) / (cellHeight imageCard_aspectRatio_v2 (ITEM_WIDTH rnd 20 412) + GAP)\<bar> < 1 / 2
       \<and> resolveTarget (ITEM_WIDTH rnd 20 412)
            (cellHeight imageCard_aspectRatio_v2 (ITEM_WIDTH rnd 20 412)) GAP 0 (7821 / 64) 0 4 = 0
       \<and> swapImages_v2 0 2 [Some ''A'', Some ''B'', Some ''C'', Some ''D'']
            = [Some ''C'', Some ''B'', Some ''A'', Some ''D'']
       \<and> cellHeight imageCard_aspectRatio 180 = 180 * 1.25
       \<and> resolveTarget 180 (cellHeight imageCard_aspectRatio 180) GAP 0 (7821 / 64) 0 4 = 2"
proof -
  from r have f: "rnd 40 = 40" "rnd 372 = 372" "rnd 360 = 360" "rnd 180 = 180" "rnd 192 = 192"
    "rnd 0 = 0" "rnd 225 = 225" "rnd 237 = 237" "rnd (33 / 64) = 33 / 64"
    by simp_all
  have iw: "ITEM_WIDTH rnd 20 412 = 180"
    by (simp add: ITEM_WIDTH_def GAP_def f)
  have ch: "cellHeight imageCard_aspectRatio_v2 180 = 240"
    by (simp add: cellHeight_ratio)
  have q: "(7821 / 64) / (237::real) = 33 / 64" by simp
  have t: "targetIndex rnd 180 0 (7821 / 64) 0 4 = 2"
    by (simp add: targetIndex_def GAP_def f q Let_def Math_round_def)
  have c: "onEnd_call rnd 180 0 (7821 / 64) 0 4 = Some (0, 2)"
    by (simp add: onEnd_call_def t)
  have a: "\<bar>(7821 / 64) / (240 + GAP)\<bar> < (1 / 2 :: real)"
    by (simp add: GAP_def)
  have s: "resolveTarget 180 240 GAP 0 (7821 / 64) 0 4 = 0"
    by (simp add: resolveTarget_def GAP_def Let_def Math_round_def)
  have sw: "swapImages_v2 0 2 [Some ''A'', Some ''B'', Some ''C'', Some ''D'']
            = [Some ''C'', Some ''B'', Some ''A'', Some ''D'']"
    by (simp add: swapImages_v2_def jsGet_def jsSet_def Let_def)
  have ch1: "cellHeight imageCard_aspectRatio 180 = 180 * 1.25"
    by (simp add: cellHeight_ratio)
  have s1: "resolveTarget 180 (cellHeight imageCard_aspectRatio 180) GAP 0 (7821 / 64) 0 4 = 2"
    by (simp add: cellHeight_ratio resolveTarget_def GAP_def Let_def Math_round_def)
  show ?thesis
    unfolding iw ch by (intro conjI refl c a s sw ch1 s1)
qed

theorem onEnd_row_shift_stale_witness:
  "onEnd_call (\<lambda>x. x) (ITEM_WIDTH (\<lambda>x. x) 20 412) 0 (7821 / 64) 0 4 = Some (0, 2)
   \<and> resolveTarget (ITEM_WIDTH (\<lambda>x. x) 20 412)
        (cellHeight imageCard_aspectRatio_v2 (ITEM_WIDTH (\<lambda>x. x) 20 412)) GAP 0 (7821 / 64) 0 4 = 0"
proof -
  have h: "\<forall>x \<in> set [40, 372, 360, 180, 192, 0, 225, 237, 33 / 64]. (\<lambda>x :: real. x) x = x"
    by simp
  note T = onEnd_row_shift_stale [of "\<lambda>x. x", OF h]
  show ?thesis
    by (intro conjI T [THEN conjunct2, THEN conjunct2, THEN conjunct1]
        T [THEN conjunct2, THEN conjunct2, THEN conjunct2, THEN conjunct2, THEN conjunct1])
qed

text \<open>
  The handler of either screen file, whatever the rounding of the engine:
  \<^verbatim>\<open>Math.round\<close> yields an integer nearest to its argument; the target index is the
  source index plus the column shift plus twice the row shift, clamped into
  \<open>[0, total - 1]\<close>; the handler calls \<^verbatim>\<open>swapImages\<close> with source and target exactly when
  they differ; and for a source index inside a draft of \<open>total\<close> images the two
  positions lie inside the draft, so that the call exchanges the two entries in either
  screen file.
\<close>

theorem onEnd_swaps_in_range:
  "(\<forall>k. \<bar>x - real_of_int (Math_round x)\<bar> \<le> \<bar>x - real_of_int k\<bar>)
   \<and> targetIndex rnd itemWidth tx ty index totalCount =
        max 0 (min (totalCount - 1)
          (index + (Math_round (rnd (tx / rnd (itemWidth + GAP)))
                    + Math_round (rnd (ty / rnd (rnd (itemWidth * 1.25) + GAP))) * 2)))
   \<and> (1 \<le> totalCount \<longrightarrow>
        0 \<le> targetIndex rnd itemWidth tx ty index totalCount
        \<and> targetIndex rnd itemWidth tx ty index totalCount \<le> totalCount - 1)
   \<and> onEnd_call rnd itemWidth tx ty index totalCount =
        (if targetIndex rnd itemWidth tx ty index totalCount \<noteq> index
         then Some (index, targetIndex rnd itemWidth tx ty index totalCount) else None)
   \<and> onEnd rnd itemWidth tx ty index totalCount st =
        (if targetIndex rnd itemWidth tx ty index totalCount \<noteq> index
         then swapImages index (targetIndex rnd itemWidth tx ty index totalCount) st else st)
   \<and> (0 \<le> index \<and> index < totalCount \<and> totalCount = int (length (selectedImages st))
        \<and> targetIndex rnd itemWidth tx ty index totalCount \<noteq> index \<longrightarrow>
        selectedImages (onEnd rnd itemWidth tx ty index totalCount st) =
          (selectedImages st)
            [nat index := selectedImages st ! nat (targetIndex rnd itemWidth tx ty index totalCount),
             nat (targetIndex rnd itemWidth tx ty index totalCount) := selectedImages st ! nat index]
        \<and> swapImages_v2 index (targetIndex rnd itemWidth tx ty index totalCount)
              (map Some (selectedImages st))
            = map Some (selectedImages (onEnd rnd itemWidth tx ty index totalCount st)))"
proof (intro conjI allI impI)
  fix k show "\<bar>x - real_of_int (Math_round x)\<bar> \<le> \<bar>x - real_of_int k\<bar>"
    by (rule Math_round_nearest)
next
  show "targetIndex rnd itemWidth tx ty index totalCount =
        max 0 (min (totalCount - 1)
          (index + (Math_round (rnd (tx / rnd (itemWidth + GAP)))
                    + Math_round (rnd (ty / rnd (rnd (itemWidth * 1.25) + GAP))) * 2)))"
    by (simp add: targetIndex_def Let_def)
next
  assume "1 \<le> totalCount"
  then show "0 \<le> targetIndex rnd itemWidth tx ty index totalCount"
    and "targetIndex rnd itemWidth tx ty index totalCount \<le> totalCount - 1"
    by (rule targetIndex_clamped)+
next
  show "onEnd_call rnd itemWidth tx ty index totalCount =
            (if targetIndex rnd itemWidth tx ty index totalCount \<noteq> index
             then Some (index, targetIndex rnd itemWidth tx ty index totalCount) else None)"
    by (simp add: onEnd_call_def Let_def)
next
  show "onEnd rnd itemWidth tx ty index totalCount st =
            (if targetIndex rnd itemWidth tx ty index totalCount \<noteq> index
             then swapImages index (targetIndex rnd itemWidth tx ty index totalCount) st else st)"
    by (simp add: onEnd_def onEnd_call_def Let_def)
next
  let ?t = "targetIndex rnd itemWidth tx ty index totalCount"
  assume a: "0 \<le> index \<and> index < totalCount \<and> totalCount = int (length (selectedImages st))
            \<and> ?t \<noteq> index"
  then have "1 \<le> totalCount" by linarith
  from targetIndex_clamped [OF this, of rnd itemWidth tx ty index] a
  have r: "index \<noteq> ?t" "0 \<le> index" "0 \<le> ?t" "index < int (length (selectedImages st))"
    "?t < int (length (selectedImages st))" by auto
  have ne: "?t \<noteq> index" using a by blast
  have "onEnd rnd itemWidth tx ty index totalCount st = swapImages index ?t st"
    by (simp add: onEnd_def onEnd_call_def Let_def ne)
  then have eq: "selectedImages (onEnd rnd itemWidth tx ty index totalCount st) =
              (selectedImages st)[nat index := selectedImages st ! nat ?t,
                 nat ?t := selectedImages st ! nat index]"
    by (simp add: swapImages_images [OF r])
  then show "selectedImages (onEnd rnd itemWidth tx ty index totalCount st) =
              (selectedImages st)[nat index := selectedImages st ! nat ?t,
                 nat ?t := selectedImages st ! nat index]" .
  show "swapImages_v2 index ?t (map Some (selectedImages st))
          = map Some (selectedImages (onEnd rnd itemWidth tx ty index totalCount st))"
    unfolding eq using r by (intro swapImages_v2_inrange) simp_all
qed

theorem onEnd_swaps_in_range_witness:
  "ITEM_WIDTH (\<lambda>x. x) 16 390 = 173
   \<and> targetIndex (\<lambda>x. x) 173 185 (913 / 4) 0 3 = 2
   \<and> onEnd_call (\<lambda>x. x) 173 185 0 0 3 = Some (0, 1)
   \<and> onEnd_call (\<lambda>x. x) 173 0 0 0 3 = None
   \<and> selectedImages (onEnd (\<lambda>x. x) 173 185 (913 / 4) 0 3 draftABC) = [''C'', ''B'', ''A'']"
proof -
  have iw: "ITEM_WIDTH (\<lambda>x. x) 16 390 = 173" by (simp add: ITEM_WIDTH_def GAP_def)
  have t1: "targetIndex (\<lambda>x. x) 173 185 (913 / 4) 0 3 = 2"
    by (simp add: targetIndex_def Math_round_def GAP_def Let_def)
  have t2: "targetIndex (\<lambda>x. x) 173 185 0 0 3 = 1"
    by (simp add: targetIndex_def Math_round_def GAP_def Let_def)
  have t3: "targetIndex (\<lambda>x. x) 173 0 0 0 3 = 0"
    by (simp add: targetIndex_def Math_round_def GAP_def Let_def)
  note T = onEnd_swaps_in_range [where rnd = "\<lambda>x. x" and itemWidth = 173 and tx = 185
      and ty = "913 / 4" and index = 0 and totalCount = 3 and st = draftABC and x = 0]
  have len: "(0::int) \<le> 0 \<and> (0::int) < 3 \<and> (3::int) = int (length (selectedImages draftABC))
      \<and> targetIndex (\<lambda>x. x) 173 185 (913 / 4) 0 3 \<noteq> 0"
    by (simp add: t1 draftABC_def)
  have "selectedImages (onEnd (\<lambda>x. x) 173 185 (913 / 4) 0 3 draftABC) =
      (selectedImages draftABC)[nat 0 := selectedImages draftABC ! nat (targetIndex (\<lambda>x. x) 173 185 (913 / 4) 0 3),
          nat (targetIndex (\<lambda>x. x) 173 185 (913 / 4) 0 3) := selectedImages draftABC ! nat 0]"
    using T [THEN conjunct2, THEN conjunct2, THEN conjunct2, THEN conjunct2, THEN conjunct2,
        THEN mp, OF len, THEN conjunct1] .
  then have s: "selectedImages (onEnd (\<lambda>x. x) 173 185 (913 / 4) 0 3 draftABC) = [''C'', ''B'', ''A'']"
    by (simp add: t1 draftABC_def)
  have c1: "onEnd_call (\<lambda>x. x) 173 185 0 0 3 = Some (0, 1)"
    by (simp add: onEnd_call_def t2)
  have c2: "onEnd_call (\<lambda>x. x) 173 0 0 0 3 = None"
    by (simp add: onEnd_call_def t3)
  show ?thesis by (intro conjI iw t1 c1 c2 s)
qed

section \<open>Properties of the conversion\<close>

lemma those_map_if:
  "those (map (\<lambda>i. if i \<in> S then Some (f i) else None) is) =
     (if set is \<subseteq> S then Some (map f is) else None)"
  by (induction "is") auto

lemma map_nth_upt: "map ((!) vs) [0..<length vs] = vs"
  by (rule map_nth)

lemma settle_fulfilled:
  "settle (map Inr vs) sched
       (map (\<lambda>i. if i \<in> S then Some (vs ! i) else None) [0..<length vs])
     = (if {0..<length vs} \<subseteq> S \<union> set sched then Some (Inr vs) else None)"
proof (induction sched arbitrary: S)
  case Nil
  show ?case by (simp add: those_map_if map_nth)
next
  case (Cons i sched)
  show ?case
  proof (cases "i < length vs")
    case True
    have upd: "(map (\<lambda>k. if k \<in> S then Some (vs ! k) else None) [0..<length vs])[i := Some (vs ! i)]
             = map (\<lambda>k. if k \<in> insert i S then Some (vs ! k) else None) [0..<length vs]"
    proof (rule nth_equalityI)
      show "length ((map (\<lambda>k. if k \<in> S then Some (vs ! k) else None) [0..<length vs])[i := Some (vs ! i)])
          = length (map (\<lambda>k. if k \<in> insert i S then Some (vs ! k) else None) [0..<length vs])"
        by simp
    next
      fix k
      assume "k < length ((map (\<lambda>k. if k \<in> S then Some (vs ! k) else None) [0..<length vs])[i := Some (vs ! i)])"
      then have k: "k < length vs" by simp
      show "(map (\<lambda>k. if k \<in> S then Some (vs ! k) else None) [0..<length vs])[i := Some (vs ! i)] ! k
          = map (\<lambda>k. if k \<in> insert i S then Some (vs ! k) else None) [0..<length vs] ! k"
        using k True by (cases "k = i") simp_all
    qed
    show ?thesis using True Cons [of "insert i S"] by (simp add: upd)
  next
    case False
    then have "{0..<length vs} \<subseteq> S \<union> set (i # sched) \<longleftrightarrow> {0..<length vs} \<subseteq> S \<union> set sched"
      by auto
    with False Cons [of S] show ?thesis by simp
  qed
qed

lemma Promise_all_fulfilled:
  assumes "{0..<length vs} \<subseteq> set sched"
  shows "Promise_all (map Inr vs) sched = Some (Inr vs)"
proof -
  have rep: "replicate (length vs) None
           = map (\<lambda>i. if i \<in> {} then Some (vs ! i) else None) [0..<length vs]"
    by (rule nth_equalityI) simp_all
  have "settle (map Inr vs) sched (replicate (length vs) None)
      = (if {0..<length vs} \<subseteq> {} \<union> set sched then Some (Inr vs) else None)"
    unfolding rep by (rule settle_fulfilled)
  also have "\<dots> = Some (Inr vs)" using assms by simp
  finally show ?thesis by (simp only: Promise_all_def length_map)
qed

lemma settle_settles:
  assumes "{0..<length rs} \<subseteq> S \<union> set sched" "length slots = length rs"
    and "\<forall>i < length rs. i \<in> S \<longrightarrow> slots ! i \<noteq> None"
  shows "settle rs sched slots \<noteq> None"
  using assms
proof (induction sched arbitrary: S slots)
  case Nil
  have "v \<noteq> None" if "v \<in> set slots" for v
  proof -
    from that obtain i where i: "i < length slots" "slots ! i = v"
      by (auto simp: in_set_conv_nth)
    then have "i \<in> S" using Nil.prems(1,2) by auto
    with i Nil.prems(2,3) show ?thesis by auto
  qed
  then have "\<forall>v \<in> set slots. v \<noteq> None" by blast
  then have "those slots \<noteq> None"
    by (induction slots) auto
  then show ?case by simp
next
  case (Cons i sched)
  show ?case
  proof (cases "i < length rs")
    case True
    show ?thesis
    proof (cases "rs ! i")
      case (Inl e)
      with True show ?thesis by simp
    next
      case (Inr v)
      have "settle rs sched (slots[i := Some v]) \<noteq> None"
      proof (rule Cons.IH [of "insert i S"])
        show "{0..<length rs} \<subseteq> insert i S \<union> set sched" using Cons.prems(1) by auto
        show "length (slots[i := Some v]) = length rs" using Cons.prems(2) by simp
        show "\<forall>k<length rs. k \<in> insert i S \<longrightarrow> slots[i := Some v] ! k \<noteq> None"
        proof (intro allI impI)
          fix k assume k: "k < length rs" "k \<in> insert i S"
          show "slots[i := Some v] ! k \<noteq> None"
          proof (cases "k = i")
            case True
            then show ?thesis using k Cons.prems(2) by simp
          next
            case False
            then show ?thesis using k Cons.prems(2,3) by simp
          qed
        qed
      qed
      with True Inr show ?thesis by simp
    qed
  next
    case False
    have "settle rs sched slots \<noteq> None"
    proof (rule Cons.IH [of S])
      show "{0..<length rs} \<subseteq> S \<union> set sched" using Cons.prems(1) False by auto
    qed (use Cons.prems in auto)
    with False show ?thesis by simp
  qed
qed

lemma Promise_all_settles:
  assumes "{0..<length rs} \<subseteq> set sched"
  shows "Promise_all rs sched \<noteq> None"
  unfolding Promise_all_def
  by (rule settle_settles [of rs "{}"]) (use assms in auto)

lemma perm_covers:
  assumes "mset sched = mset [0..<n]"
  shows "{0..<n} \<subseteq> set sched"
proof -
  have "set sched = set [0..<n]" using assms by (rule mset_eq_setD)
  then show ?thesis by simp
qed

lemma loadLibrary_frame [simp]:
  "alerts (loadLibrary P w b st) = alerts st"
  "selectedImages (loadLibrary P w b st) = selectedImages st"
  "showDraftModal (loadLibrary P w b st) = showDraftModal st"
  "isProcessing (loadLibrary P w b st) = isProcessing st"
  "pdfName (loadLibrary P w b st) = pdfName st"
  by (simp_all add: loadLibrary_def applyFilter_def Let_def split: option.splits sum.splits)

lemma isNameChar_underscore: "isNameChar (CHR ''_'')"
  by (simp add: isNameChar_def)

lemma cleanName_chars: "list_all isNameChar (cleanName nm)"
proof (cases "nm = []")
  case True
  then show ?thesis
    by (simp add: cleanName_def isNameChar_def upperLetters_def lowerLetters_def)
next
  case False
  have "list_all isNameChar (map (\<lambda>c. if isNameChar c then c else CHR ''_'') nm)"
    by (induction nm) (simp_all add: isNameChar_underscore)
  with False show ?thesis
    by (simp add: cleanName_def Let_def)
qed

lemma cleanName_nonempty: "cleanName nm \<noteq> []"
  by (simp add: cleanName_def Let_def)

lemma cleanName_eq:
  "cleanName nm = (if nm = [] then ''Doc'' else map (\<lambda>c. if isNameChar c then c else CHR ''_'') nm)"
  by (simp add: cleanName_def Let_def)

lemma generatePdf_world:
  assumes "generatePdf P sched (st, w) = Some (st', w')"
  shows "w' = w \<or> (\<exists>html tempUri w1. printToFileAsync P html w = Inr (tempUri, w1)
            \<and> (w' = w1 \<or> copyAsync P tempUri (docDirString P @ finalName (pdfName st)) w1 = Inr w'))"
  using assms
  by (auto simp: generatePdf_def generatePdf_start_def Let_def
      split: if_splits option.splits sum.splits prod.splits)

text \<open>
  Claim C10. The stored file name \<^verbatim>\<open>generatePdf\<close> of \<^verbatim>\<open>index.tsx\<close> builds from the
  draft name is the name with every character outside \<^verbatim>\<open>[a-zA-Z0-9_-]\<close> replaced by an
  underscore, or \<^verbatim>\<open>Doc\<close> for the empty name, followed by \<^verbatim>\<open>.pdf\<close>; it has the form
  \<^verbatim>\<open>^[A-Za-z0-9_-]+\.pdf$\<close>; and whenever \<^verbatim>\<open>generatePdf\<close> returns, the world is
  untouched, or holds the print service's output only, or that output copied to the
  document directory under this name.
\<close>

theorem finalName_matches:
  "finalName nm = cleanName nm @ ''.pdf''
   \<and> cleanName nm =
       (if nm = [] then ''Doc'' else map (\<lambda>c. if isNameChar c then c else CHR ''_'') nm)
   \<and> cleanName nm \<noteq> [] \<and> list_all isNameChar (cleanName nm)
   \<and> matchesPdfName (finalName nm)
   \<and> (generatePdf P sched (st, w) = Some (st', w') \<longrightarrow>
        w' = w \<or> (\<exists>html tempUri w1. printToFileAsync P html w = Inr (tempUri, w1)
            \<and> (w' = w1 \<or> copyAsync P tempUri (docDirString P @ finalName (pdfName st)) w1 = Inr w')))"
proof -
  have "matchesPdfName (finalName nm)"
    unfolding matchesPdfName_def finalName_def
    using cleanName_nonempty cleanName_chars by blast
  then show ?thesis
    by (intro conjI impI cleanName_eq cleanName_nonempty cleanName_chars generatePdf_world)
      (simp_all add: finalName_def)
qed

lemma reads_fulfilled:
  assumes "\<forall>u \<in> set xs. readAsStringAsync P u w = Inr (enc u)"
  shows "map (\<lambda>u. map_sum id dataUri (readAsStringAsync P u w)) xs
       = map Inr (map (\<lambda>u. dataUri (enc u)) xs)"
  using assms by (induction xs) simp_all

lemma generatePdf_start_frame [simp]:
  "selectedImages (generatePdf_start st) = selectedImages st"
  "pdfName (generatePdf_start st) = pdfName st"
  by (simp_all add: generatePdf_start_def)

lemma generatePdf_success:
  assumes ne: "selectedImages st \<noteq> []"
    and pa: "Promise_all (map (\<lambda>u. map_sum id dataUri (readAsStringAsync P u w))
               (selectedImages st)) sched = Some (Inr imgs)"
    and pr: "printToFileAsync P (htmlContent imgs) w = Inr (tempUri, w1)"
    and cp: "copyAsync P tempUri (docDirString P @ finalName (pdfName st)) w1 = Inr w2"
  shows "generatePdf P sched (st, w) =
           Some ((loadLibrary P w2 True (generatePdf_start st))
                   \<lparr>showDraftModal := False, selectedImages := [], isProcessing := False\<rparr>, w2)"
  using assms by (simp add: generatePdf_def Let_def)

lemma pagesOf_skip_char: "c \<noteq> CHR ''<'' \<Longrightarrow> pagesOf (c # s) = pagesOf s"
  by (simp add: pagesOf.simps pageOpen_def)

lemma pagesOf_skip_tag: "d \<noteq> CHR ''d'' \<Longrightarrow> pagesOf (CHR ''<'' # d # s) = pagesOf (d # s)"
  by (simp add: pagesOf.simps pageOpen_def)

lemma pagesOf_skip: "CHR ''<'' \<notin> set xs \<Longrightarrow> pagesOf (xs @ rest) = pagesOf rest"
proof (induction xs)
  case Nil
  then show ?case by simp
next
  case (Cons a xs)
  then have "a \<noteq> CHR ''<''" "CHR ''<'' \<notin> set xs" by auto
  then show ?case using Cons.IH by (simp add: pagesOf_skip_char)
qed


lemma pagesOf_htmlTail: "pagesOf (htmlTail @ rest) = pagesOf rest"
proof -
  have nl: "pagesOf ([CHR 0x0A] @ r) = pagesOf r" for r
    by (rule pagesOf_skip) simp
  have 1: "pagesOf (''        </body></html>'' @ r) = pagesOf r" for r
    by (simp add: pagesOf_skip_char pagesOf_skip_tag)
  have 2: "pagesOf (''      '' @ r) = pagesOf r" for r
    by (rule pagesOf_skip) simp
  show ?thesis
    unfolding htmlTail_def append_assoc
    by (simp only: nl 1 2)
qed

lemma pagesOf_open:
  assumes "prefix pageOpen xs"
  shows "pagesOf xs = takeWhile (\<lambda>x. x \<noteq> CHR 0x22) (drop (length pageOpen) xs)
             # pagesOf (dropWhile (\<lambda>x. x \<noteq> CHR 0x22) (drop (length pageOpen) xs))"
proof (cases xs)
  case Nil
  with assms show ?thesis by (simp add: pageOpen_def)
next
  case (Cons c s)
  with assms show ?thesis by (simp add: pagesOf.simps)
qed

lemma pagesOf_pageDiv:
  assumes "CHR 0x22 \<notin> set img"
  shows "pagesOf (pageDiv img @ rest) = img # pagesOf rest"
proof -
  define close where "close = CHR 0x22 # '' /></div>'' @ rest"
  have pd: "pageDiv img @ rest = pageOpen @ img @ close"
    by (simp add: pageDiv_def pageOpen_def close_def)
  have tw: "takeWhile (\<lambda>x. x \<noteq> CHR 0x22) (img @ close) = img"
    using assms by (simp add: takeWhile_append close_def)
  have dw: "dropWhile (\<lambda>x. x \<noteq> CHR 0x22) (img @ close) = close"
    using assms by (simp add: dropWhile_append close_def)
  have dr: "drop (length pageOpen) (pageOpen @ img @ close) = img @ close"
    by simp
  have "pagesOf (pageOpen @ img @ close) = img # pagesOf close"
    using pagesOf_open [of "pageOpen @ img @ close"] unfolding dr tw dw by simp
  also have "pagesOf close = pagesOf rest"
    unfolding close_def by (simp add: pagesOf_skip_char pagesOf_skip_tag)
  finally show ?thesis by (simp only: pd)
qed

lemma pagesOf_pages:
  assumes "\<forall>img \<in> set imgs. CHR 0x22 \<notin> set img"
  shows "pagesOf (concat (map pageDiv imgs) @ rest) = imgs @ pagesOf rest"
  using assms
proof (induction imgs)
  case Nil
  then show ?case by simp
next
  case (Cons img imgs)
  then have q: "CHR 0x22 \<notin> set img" and IH: "pagesOf (concat (map pageDiv imgs) @ rest) = imgs @ pagesOf rest"
    by simp_all
  have "pagesOf (concat (map pageDiv (img # imgs)) @ rest)
      = pagesOf (pageDiv img @ (concat (map pageDiv imgs) @ rest))" by simp
  also have "\<dots> = img # pagesOf (concat (map pageDiv imgs) @ rest)"
    by (rule pagesOf_pageDiv [OF q])
  finally show ?case by (simp add: IH)
qed


lemma quote_not_base64: "\<not> isBase64Char (CHR 0x22)"
  by (simp add: isBase64Char_def upperLetters_def lowerLetters_def digits_def)

lemma base64_no_quote:
  assumes "list_all isBase64Char s"
  shows "CHR 0x22 \<notin> set (dataUri s)"
proof -
  have "CHR 0x22 \<notin> set s"
    using assms quote_not_base64 by (auto simp only: list_all_iff)
  then show ?thesis by (simp add: dataUri_def)
qed


lemma generatePdf_failed_state:
  assumes "phase st = Reviewing"
  shows "generatePdf_catch message (generatePdf_start st)
           = st\<lparr>alerts := alerts st @ [(''Failed'', message)]\<rparr>"
proof -
  have "\<not> isProcessing st" using assms by (auto simp: phase_def split: if_splits)
  then show ?thesis
    by (simp add: generatePdf_catch_def generatePdf_start_def)
qed

text \<open>
  Claim C9. \<^verbatim>\<open>generatePdf\<close>, started on a non-empty draft under review, is converting
  while it waits. When a read, the print service or the copy rejects, it ends in the
  state it started from with the alert \<^verbatim>\<open>Failed\<close> and the error's message added: the
  draft is unchanged and the phase is reviewing again. When all succeed it ends idle
  with the draft cleared and no alert. It returns whenever every read settles.
\<close>

theorem generatePdf_failure_keeps_draft:
  assumes ne: "selectedImages st \<noteq> []" and rev: "phase st = Reviewing"
  shows "phase (generatePdf_start st) = Converting
       \<and> (\<forall>message. Promise_all (map (\<lambda>u. map_sum id dataUri (readAsStringAsync P u w))
                        (selectedImages st)) sched = Some (Inl message) \<longrightarrow>
             generatePdf P sched (st, w)
               = Some (st\<lparr>alerts := alerts st @ [(''Failed'', message)]\<rparr>, w))
       \<and> (\<forall>imgs message. Promise_all (map (\<lambda>u. map_sum id dataUri (readAsStringAsync P u w))
                        (selectedImages st)) sched = Some (Inr imgs)
               \<and> printToFileAsync P (htmlContent imgs) w = Inl message \<longrightarrow>
             generatePdf P sched (st, w)
               = Some (st\<lparr>alerts := alerts st @ [(''Failed'', message)]\<rparr>, w))
       \<and> (\<forall>imgs tempUri w1 message.
               Promise_all (map (\<lambda>u. map_sum id dataUri (readAsStringAsync P u w))
                        (selectedImages st)) sched = Some (Inr imgs)
               \<and> printToFileAsync P (htmlContent imgs) w = Inr (tempUri, w1)
               \<and> copyAsync P tempUri (docDirString P @ finalName (pdfName st)) w1 = Inl message \<longrightarrow>
             generatePdf P sched (st, w)
               = Some (st\<lparr>alerts := alerts st @ [(''Failed'', message)]\<rparr>, w1))
       \<and> (\<forall>message. selectedImages (st\<lparr>alerts := alerts st @ [(''Failed'', message)]\<rparr>)
                       = selectedImages st
                   \<and> phase (st\<lparr>alerts := alerts st @ [(''Failed'', message)]\<rparr>) = Reviewing)
       \<and> (\<forall>imgs tempUri w1 w2.
               Promise_all (map (\<lambda>u. map_sum id dataUri (readAsStringAsync P u w))
                        (selectedImages st)) sched = Some (Inr imgs)
               \<and> printToFileAsync P (htmlContent imgs) w = Inr (tempUri, w1)
               \<and> copyAsync P tempUri (docDirString P @ finalName (pdfName st)) w1 = Inr w2 \<longrightarrow>
             (\<exists>st'. generatePdf P sched (st, w) = Some (st', w2)
                   \<and> selectedImages st' = [] \<and> alerts st' = alerts st \<and> phase st' = Idle))
       \<and> ({0..<length (selectedImages st)} \<subseteq> set sched \<longrightarrow> generatePdf P sched (st, w) \<noteq> None)"
proof (intro conjI allI impI)
  show "phase (generatePdf_start st) = Converting"
    by (simp add: phase_def generatePdf_start_def)
next
  fix message
  assume "Promise_all (map (\<lambda>u. map_sum id dataUri (readAsStringAsync P u w))
            (selectedImages st)) sched = Some (Inl message)"
  then show "generatePdf P sched (st, w)
               = Some (st\<lparr>alerts := alerts st @ [(''Failed'', message)]\<rparr>, w)"
    using ne by (simp add: generatePdf_def Let_def generatePdf_failed_state [OF rev])
next
  fix imgs message
  assume "Promise_all (map (\<lambda>u. map_sum id dataUri (readAsStringAsync P u w))
                        (selectedImages st)) sched = Some (Inr imgs)
               \<and> printToFileAsync P (htmlContent imgs) w = Inl message"
  then show "generatePdf P sched (st, w)
               = Some (st\<lparr>alerts := alerts st @ [(''Failed'', message)]\<rparr>, w)"
    using ne by (simp add: generatePdf_def Let_def generatePdf_failed_state [OF rev])
next
  fix imgs tempUri w1 message
  assume "Promise_all (map (\<lambda>u. map_sum id dataUri (readAsStringAsync P u w))
                        (selectedImages st)) sched = Some (Inr imgs)
               \<and> printToFileAsync P (htmlContent imgs) w = Inr (tempUri, w1)
               \<and> copyAsync P tempUri (docDirString P @ finalName (pdfName st)) w1 = Inl message"
  then show "generatePdf P sched (st, w)
               = Some (st\<lparr>alerts := alerts st @ [(''Failed'', message)]\<rparr>, w1)"
    using ne by (simp add: generatePdf_def Let_def generatePdf_failed_state [OF rev])
next
  fix message
  show "selectedImages (st\<lparr>alerts := alerts st @ [(''Failed'', message)]\<rparr>) = selectedImages st"
    by simp
  show "phase (st\<lparr>alerts := alerts st @ [(''Failed'', message)]\<rparr>) = Reviewing"
    using rev by (auto simp: phase_def split: if_splits)
next
  fix imgs tempUri w1 w2
  assume a: "Promise_all (map (\<lambda>u. map_sum id dataUri (readAsStringAsync P u w))
                        (selectedImages st)) sched = Some (Inr imgs)
               \<and> printToFileAsync P (htmlContent imgs) w = Inr (tempUri, w1)
               \<and> copyAsync P tempUri (docDirString P @ finalName (pdfName st)) w1 = Inr w2"
  let ?st' = "(loadLibrary P w2 True (generatePdf_start st))
                   \<lparr>showDraftModal := False, selectedImages := [], isProcessing := False\<rparr>"
  have "generatePdf P sched (st, w) = Some (?st', w2)"
    using a by (intro generatePdf_success [OF ne]) auto
  moreover have "selectedImages ?st' = []" "alerts ?st' = alerts st" "phase ?st' = Idle"
    by (simp_all add: phase_def generatePdf_start_def)
  ultimately show "\<exists>st'. generatePdf P sched (st, w) = Some (st', w2)
                   \<and> selectedImages st' = [] \<and> alerts st' = alerts st \<and> phase st' = Idle"
    by blast
next
  assume c: "{0..<length (selectedImages st)} \<subseteq> set sched"
  have "Promise_all (map (\<lambda>u. map_sum id dataUri (readAsStringAsync P u w))
          (selectedImages st)) sched \<noteq> None"
    by (rule Promise_all_settles) (use c in simp)
  then show "generatePdf P sched (st, w) \<noteq> None"
    by (auto simp: generatePdf_def Let_def split: option.splits sum.splits prod.splits)
qed

lemmas name_simps =
  finalName_def cleanName_def isNameChar_def upperLetters_def lowerLetters_def digits_def Let_def

theorem finalName_witness:
  "finalName ''My Doc #1'' = ''My_Doc__1.pdf''
   \<and> matchesPdfName ''My_Doc__1.pdf''
   \<and> finalName [] = ''Doc.pdf''
   \<and> finalName ''a-b_C9'' = ''a-b_C9.pdf''"
proof -
  have 1: "finalName ''My Doc #1'' = ''My_Doc__1.pdf''" by (simp add: name_simps)
  have 2: "finalName [] = ''Doc.pdf''" by (simp add: name_simps)
  have 3: "finalName ''a-b_C9'' = ''a-b_C9.pdf''" by (simp add: name_simps)
  have "matchesPdfName (finalName ''My Doc #1'')"
    by (rule finalName_matches [of "''My Doc #1''", THEN conjunct2, THEN conjunct2,
          THEN conjunct2, THEN conjunct2, THEN conjunct1])
  then have 4: "matchesPdfName ''My_Doc__1.pdf''" by (simp only: 1)
  show ?thesis by (intro conjI 1 2 3 4)
qed

lemma upt3: "[0..<3] = [0, 1, 2]"
  by (simp add: upt_rec)

lemma reviewing_images [simp]: "selectedImages (reviewing xs) = xs"
  and reviewing_name [simp]: "pdfName (reviewing xs) = ''My Doc #1''"
  and reviewing_phase [simp]: "phase (reviewing xs) = Reviewing"
  and reviewing_alerts [simp]: "alerts (reviewing xs) = []"
  by (simp_all add: reviewing_def initialScreen_def phase_def)

lemma imageDisk_base64:
  "\<forall>u \<in> set [''/img/a.jpg'', ''/img/b.jpg'', ''/img/c.jpg'']. list_all isBase64Char (encOf imageDisk u)"
  by (simp add: encOf_def imageDisk_def isBase64Char_def upperLetters_def lowerLetters_def
      digits_def)


theorem generatePdf_failure_witness:
  "phase (reviewing [''/img/a.jpg'', ''/img/gone.jpg'']) = Reviewing
   \<and> generatePdf (memPlatform ''/docs/'' 5000) [1, 0]
        (reviewing [''/img/a.jpg'', ''/img/gone.jpg''], imageDisk)
       = Some ((reviewing [''/img/a.jpg'', ''/img/gone.jpg''])
                 \<lparr>alerts := [(''Failed'', ''File does not exist'')]\<rparr>, imageDisk)
   \<and> selectedImages ((reviewing [''/img/a.jpg'', ''/img/gone.jpg''])
                 \<lparr>alerts := [(''Failed'', ''File does not exist'')]\<rparr>)
       = [''/img/a.jpg'', ''/img/gone.jpg'']
   \<and> generatePdf noPrintPlatform [1, 0] (reviewing [''/img/a.jpg'', ''/img/b.jpg''], imageDisk)
       = Some ((reviewing [''/img/a.jpg'', ''/img/b.jpg''])
                 \<lparr>alerts := [(''Failed'', ''Printing failed'')]\<rparr>, imageDisk)
   \<and> phase ((reviewing [''/img/a.jpg'', ''/img/b.jpg''])
                 \<lparr>alerts := [(''Failed'', ''Printing failed'')]\<rparr>) = Reviewing
   \<and> map_option (\<lambda>r. (selectedImages (fst r), phase (fst r), alerts (fst r)))
         (generatePdf (memPlatform ''/docs/'' 5000) [1, 0]
            (reviewing [''/img/a.jpg'', ''/img/b.jpg''], imageDisk))
       = Some ([], Idle, [])"
proof -
  let ?P = "memPlatform ''/docs/'' 5000"
  let ?st = "reviewing [''/img/a.jpg'', ''/img/gone.jpg'']"
  let ?st2 = "reviewing [''/img/a.jpg'', ''/img/b.jpg'']"
  have ne: "selectedImages ?st \<noteq> []" by simp
  have rev: "phase ?st = Reviewing" by simp
  have pa: "Promise_all (map (\<lambda>u. map_sum id dataUri (readAsStringAsync ?P u imageDisk))
              (selectedImages ?st)) [1, 0] = Some (Inl ''File does not exist'')"
    by (simp add: Promise_all_def memPlatform_def memRead_def imageDisk_def)
  note T = generatePdf_failure_keeps_draft [OF ne rev, of ?P imageDisk "[1, 0]"]
  have "generatePdf ?P [1, 0] (?st, imageDisk)
      = Some (?st\<lparr>alerts := alerts ?st @ [(''Failed'', ''File does not exist'')]\<rparr>, imageDisk)"
    by (rule T [THEN conjunct2, THEN conjunct1, rule_format, OF pa])
  then have g: "generatePdf ?P [1, 0] (?st, imageDisk)
      = Some (?st\<lparr>alerts := [(''Failed'', ''File does not exist'')]\<rparr>, imageDisk)"
    by simp
  have s: "selectedImages (?st\<lparr>alerts := [(''Failed'', ''File does not exist'')]\<rparr>)
       = [''/img/a.jpg'', ''/img/gone.jpg'']" by simp
  have ne2: "selectedImages ?st2 \<noteq> []" by simp
  have rev2: "phase ?st2 = Reviewing" by simp
  have pa2: "Promise_all (map (\<lambda>u. map_sum id dataUri (readAsStringAsync noPrintPlatform u imageDisk))
              (selectedImages ?st2)) [1, 0] = Some (Inr [dataUri ''QQ'', dataUri ''Qg''])
           \<and> printToFileAsync noPrintPlatform (htmlContent [dataUri ''QQ'', dataUri ''Qg'']) imageDisk
               = Inl ''Printing failed''"
    by (simp add: Promise_all_def noPrintPlatform_def memPlatform_def memRead_def imageDisk_def)
  note T2 = generatePdf_failure_keeps_draft [OF ne2 rev2, of noPrintPlatform imageDisk "[1, 0]"]
  have "generatePdf noPrintPlatform [1, 0] (?st2, imageDisk)
      = Some (?st2\<lparr>alerts := alerts ?st2 @ [(''Failed'', ''Printing failed'')]\<rparr>, imageDisk)"
    by (rule T2 [THEN conjunct2, THEN conjunct2, THEN conjunct1, rule_format, OF pa2])
  then have g2: "generatePdf noPrintPlatform [1, 0] (?st2, imageDisk)
      = Some (?st2\<lparr>alerts := [(''Failed'', ''Printing failed'')]\<rparr>, imageDisk)"
    by simp
  have p2: "phase (?st2\<lparr>alerts := [(''Failed'', ''Printing failed'')]\<rparr>) = Reviewing"
    by (simp add: phase_def reviewing_def initialScreen_def)
  let ?html = "htmlContent [dataUri ''QQ'', dataUri ''Qg'']"
  let ?w1 = "imageDisk @ [(''/cache/print.pdf'', \<lparr>content = ?html, mtime = 5\<rparr>)]"
  let ?w2 = "?w1 @ [(''/docs/My_Doc__1.pdf'', \<lparr>content = ?html, mtime = 5\<rparr>)]"
  have pa3: "Promise_all (map (\<lambda>u. map_sum id dataUri (readAsStringAsync ?P u imageDisk))
              (selectedImages ?st2)) [1, 0] = Some (Inr [dataUri ''QQ'', dataUri ''Qg''])
           \<and> printToFileAsync ?P ?html imageDisk = Inr (''/cache/print.pdf'', ?w1)
           \<and> copyAsync ?P ''/cache/print.pdf'' (docDirString ?P @ finalName (pdfName ?st2)) ?w1 = Inr ?w2"
    by (simp add: Promise_all_def memPlatform_def memRead_def memCopy_def imageDisk_def
        docDirString_def name_simps)
  note T3 = generatePdf_failure_keeps_draft [OF ne2 rev2, of ?P imageDisk "[1, 0]"]
  have "\<exists>st'. generatePdf ?P [1, 0] (?st2, imageDisk) = Some (st', ?w2)
                   \<and> selectedImages st' = [] \<and> alerts st' = alerts ?st2 \<and> phase st' = Idle"
    by (rule T3 [THEN conjunct2, THEN conjunct2, THEN conjunct2, THEN conjunct2, THEN conjunct2,
          THEN conjunct1, rule_format, OF pa3])
  then have g3: "map_option (\<lambda>r. (selectedImages (fst r), phase (fst r), alerts (fst r)))
         (generatePdf ?P [1, 0] (?st2, imageDisk)) = Some ([], Idle, [])"
    by auto
  show ?thesis by (intro conjI rev g s g2 p2 g3)
qed

section \<open>Properties of the rename coordinator\<close>

lemma asciiTrim_Doc2: "asciiTrim ''Doc2'' = ''Doc2''" "asciiTrim '' Doc2  '' = ''Doc2''" "asciiTrim ''   '' = []"
  by (simp_all add: asciiTrim_def isWhiteSpace_def)

lemma startRename_doc1:
  "renamingItem (renamingDoc1 typed) = Some doc1" "newFileName (renamingDoc1 typed) = typed"
  "alerts (renamingDoc1 typed) = []"
  "newFileName (startRename doc1 initialScreen) = ''Doc1''"
  by (simp_all add: renamingDoc1_def startRename_def initialScreen_def doc1_def)

lemma confirmRename_renamed:
  assumes "renamingItem st = Some item" "trim P (newFileName st) \<noteq> []"
    and "copyAsync P (uri item) (docDirString P @ trim P (newFileName st) @ ''.pdf'') w = Inr w1"
    and "deleteAsync P (uri item) w1 = Inr w2"
  shows "confirmRename P (st, w) = (loadLibrary P w2 False (st\<lparr>isRenameModalVisible := False\<rparr>), w2)"
  using assms by (simp add: confirmRename_def Let_def)

text \<open>
  Claim C1, on \<^verbatim>\<open>confirmRename\<close> of \<^verbatim>\<open>index.tsx\<close>. With \<^verbatim>\<open>Doc1.pdf\<close> and \<^verbatim>\<open>Doc2.pdf\<close>
  stored, renaming \<^verbatim>\<open>Doc1.pdf\<close> to \<^verbatim>\<open>Doc2\<close> shows no alert: the copy replaces
  \<^verbatim>\<open>Doc2.pdf\<close> by the content of \<^verbatim>\<open>Doc1.pdf\<close>, \<^verbatim>\<open>Doc1.pdf\<close> is deleted, and the
  library lists the one file left.
\<close>

theorem confirmRename_overwrites:
  "snd (confirmRename (memPlatform ''/docs/'' 5000) (renamingDoc1 ''Doc2'', twoDocs))
     = [(''/docs/Doc2.pdf'', \<lparr>content = ''one'', mtime = 5\<rparr>)]
   \<and> alerts (fst (confirmRename (memPlatform ''/docs/'' 5000) (renamingDoc1 ''Doc2'', twoDocs))) = []
   \<and> map name (pdfs (fst (confirmRename (memPlatform ''/docs/'' 5000) (renamingDoc1 ''Doc2'', twoDocs))))
     = [''Doc2.pdf'']"
proof -
  let ?P = "memPlatform ''/docs/'' 5000"
  let ?w1 = "[(''/docs/Doc1.pdf'', \<lparr>content = ''one'', mtime = 10\<rparr>),
              (''/docs/Doc2.pdf'', \<lparr>content = ''one'', mtime = 5\<rparr>)]"
  let ?w2 = "[(''/docs/Doc2.pdf'', \<lparr>content = ''one'', mtime = 5\<rparr>)]"
  have cp: "copyAsync ?P (uri doc1) (docDirString ?P @ trim ?P (newFileName (renamingDoc1 ''Doc2'')) @ ''.pdf'')
              twoDocs = Inr ?w1"
    by (simp add: startRename_doc1 asciiTrim_Doc2 docDirString_def memPlatform_def memCopy_def
        twoDocs_def doc1_def)
  have dl: "deleteAsync ?P (uri doc1) ?w1 = Inr ?w2"
    by (simp add: memPlatform_def memDelete_def doc1_def)
  have run: "confirmRename ?P (renamingDoc1 ''Doc2'', twoDocs)
      = (loadLibrary ?P ?w2 False ((renamingDoc1 ''Doc2'')\<lparr>isRenameModalVisible := False\<rparr>), ?w2)"
    by (rule confirmRename_renamed [OF _ _ cp dl]) (simp_all add: startRename_doc1 asciiTrim_Doc2)
  have lib: "map name (pdfs (loadLibrary ?P ?w2 False ((renamingDoc1 ''Doc2'')\<lparr>isRenameModalVisible := False\<rparr>)))
      = [''Doc2.pdf'']"
    by (simp add: run_simps renamingDoc1_def startRename_def doc1_def)
  have al: "alerts (loadLibrary ?P ?w2 False ((renamingDoc1 ''Doc2'')\<lparr>isRenameModalVisible := False\<rparr>)) = []"
    by (simp add: startRename_doc1)
  show ?thesis
    unfolding run fst_conv snd_conv by (intro conjI refl al lib)
qed

lemma saveRename_blank:
  assumes "trim P (editingValue st) = []"
  shows "saveRename P item (st, w) = (st\<lparr>editingId := None\<rparr>, w)"
  using assms by (simp add: saveRename_def Let_def)

lemma saveRename_conflict:
  assumes "trim P (editingValue st) \<noteq> []"
    and "trim P (editingValue st) \<noteq> replaceFirst ''.pdf'' [] (name item)"
    and "getInfoAsync P (docDirString P @ trim P (editingValue st) @ ''.pdf'') w = Inr info"
    and "exists info"
  shows "saveRename P item (st, w) =
           (st\<lparr>alerts_v2 := alerts_v2 st @ [(''Error'', ''A file with this name already exists.'')],
               editingId := None\<rparr>, w)"
  using assms by (simp add: saveRename_def Let_def)

text \<open>
  \<^verbatim>\<open>saveRename\<close> of the second screen file rejects a blank name silently, and a name
  whose file exists with the alert \<^verbatim>\<open>A file with this name already exists.\<close>; in both
  cases it leaves the world as it is.
\<close>

theorem saveRename_rejects:
  "(trim P (editingValue st) = [] \<longrightarrow> saveRename P item (st, w) = (st\<lparr>editingId := None\<rparr>, w))
   \<and> (\<forall>info. trim P (editingValue st) \<noteq> []
         \<and> trim P (editingValue st) \<noteq> replaceFirst ''.pdf'' [] (name item)
         \<and> getInfoAsync P (docDirString P @ trim P (editingValue st) @ ''.pdf'') w = Inr info
         \<and> exists info \<longrightarrow>
       saveRename P item (st, w) =
           (st\<lparr>alerts_v2 := alerts_v2 st @ [(''Error'', ''A file with this name already exists.'')],
               editingId := None\<rparr>, w))"
proof (intro conjI impI allI)
  assume "trim P (editingValue st) = []"
  then show "saveRename P item (st, w) = (st\<lparr>editingId := None\<rparr>, w)"
    by (rule saveRename_blank)
next
  fix info
  assume a: "trim P (editingValue st) \<noteq> []
         \<and> trim P (editingValue st) \<noteq> replaceFirst ''.pdf'' [] (name item)
         \<and> getInfoAsync P (docDirString P @ trim P (editingValue st) @ ''.pdf'') w = Inr info
         \<and> exists info"
  show "saveRename P item (st, w) =
           (st\<lparr>alerts_v2 := alerts_v2 st @ [(''Error'', ''A file with this name already exists.'')],
               editingId := None\<rparr>, w)"
    by (rule saveRename_conflict [OF a [THEN conjunct1] a [THEN conjunct2, THEN conjunct1]
          a [THEN conjunct2, THEN conjunct2, THEN conjunct1]
          a [THEN conjunct2, THEN conjunct2, THEN conjunct2]])
qed

theorem saveRename_rejects_witness:
  "saveRename (memPlatform ''/docs/'' 5000) doc1 (editingDoc1 ''Doc2'', twoDocs)
     = ((editingDoc1 ''Doc2'')
          \<lparr>alerts_v2 := [(''Error'', ''A file with this name already exists.'')],
           editingId := None\<rparr>, twoDocs)
   \<and> saveRename (memPlatform ''/docs/'' 5000) doc1 (editingDoc1 ''   '', twoDocs)
     = ((editingDoc1 ''   '')\<lparr>editingId := None\<rparr>, twoDocs)"
proof -
  let ?P = "memPlatform ''/docs/'' 5000"
  note T = saveRename_rejects [where st = "editingDoc1 ''Doc2''" and P = ?P and item = doc1 and w = twoDocs]
  have e: "editingValue (editingDoc1 typed) = typed" "alerts_v2 (editingDoc1 typed) = []" for typed
    by (simp_all add: editingDoc1_def)
  have h: "trim ?P (editingValue (editingDoc1 ''Doc2'')) \<noteq> []
         \<and> trim ?P (editingValue (editingDoc1 ''Doc2'')) \<noteq> replaceFirst ''.pdf'' [] (name doc1)
         \<and> getInfoAsync ?P (docDirString ?P @ trim ?P (editingValue (editingDoc1 ''Doc2'')) @ ''.pdf'') twoDocs
             = Inr \<lparr>exists = True, size_info = 3, modificationTime = 20\<rparr>
         \<and> exists \<lparr>exists = True, size_info = 3, modificationTime = 20\<rparr>"
    by (simp add: e asciiTrim_Doc2 doc1_def docDirString_def memPlatform_def memInfo_def twoDocs_def)
  have 1: "saveRename ?P doc1 (editingDoc1 ''Doc2'', twoDocs)
     = ((editingDoc1 ''Doc2'')
          \<lparr>alerts_v2 := [(''Error'', ''A file with this name already exists.'')],
           editingId := None\<rparr>, twoDocs)"
    using T [THEN conjunct2, rule_format, OF h] by (simp add: e)
  have 2: "saveRename ?P doc1 (editingDoc1 ''   '', twoDocs)
     = ((editingDoc1 ''   '')\<lparr>editingId := None\<rparr>, twoDocs)"
    by (rule saveRename_blank) (simp add: e asciiTrim_Doc2)
  show ?thesis by (intro conjI 1 2)
qed

section \<open>The second screen file against the first\<close>

lemma allFulfilled_all_Inr:
  assumes "\<forall>x \<in> set xs. \<exists>v. g x = Inr v"
  shows "allFulfilled (map (\<lambda>x. map_sum id (f x) (g x)) xs)
       = Some (map (\<lambda>x. f x (projr (g x))) xs)"
  using assms by (induction xs) auto

lemma allFulfilled_some_Inl:
  assumes "x \<in> set xs" "g x = Inl e"
  shows "allFulfilled (map (\<lambda>x. map_sum id (f x) (g x)) xs) = None"
  using assms
proof (induction xs)
  case Nil
  then show ?case by simp
next
  case (Cons y ys)
  show ?case
  proof (cases "g y")
    case (Inl a)
    then show ?thesis by simp
  next
    case (Inr v)
    with Cons show ?thesis by auto
  qed
qed

text \<open>
  \<^verbatim>\<open>loadLibrary\<close> of the second screen file sets the same list as that of
  \<^verbatim>\<open>index.tsx\<close> when every metadata read of a listed PDF file succeeds, and does not
  set the list at all when one of them rejects.
\<close>

theorem loadLibrary_v2_agrees:
  assumes dir: "documentDirectory P = Some docDir" "docDir \<noteq> []"
    and ls: "readDirectoryAsync P docDir w = Inr files"
  shows "((\<forall>f \<in> set files. isPdfFile f \<longrightarrow> (\<exists>info. getInfoAsync P (docDir @ f) w = Inr info))
            \<longrightarrow> loadLibrary_v2 P w = Some (pdfs (loadLibrary P w b st)))
       \<and> ((\<exists>f \<in> set files. isPdfFile f \<and> (\<exists>e. getInfoAsync P (docDir @ f) w = Inl e))
            \<longrightarrow> loadLibrary_v2 P w = None)"
proof (intro conjI impI)
  let ?fs = "filter isPdfFile files"
  assume ok: "\<forall>f \<in> set files. isPdfFile f \<longrightarrow> (\<exists>info. getInfoAsync P (docDir @ f) w = Inr info)"
  then have ok': "\<forall>f \<in> set ?fs. \<exists>info. getInfoAsync P (docDir @ f) w = Inr info" by simp
  have "allFulfilled (map (\<lambda>f. map_sum id (\<lambda>i. docOfInfo P w f (docDir @ f) i)
            (getInfoAsync P (docDir @ f) w)) ?fs)
      = Some (map (\<lambda>f. docOfInfo P w f (docDir @ f) (projr (getInfoAsync P (docDir @ f) w))) ?fs)"
    by (rule allFulfilled_all_Inr [where g = "\<lambda>f. getInfoAsync P (docDir @ f) w"
          and f = "\<lambda>f. docOfInfo P w f (docDir @ f)", OF ok'])
  also have "map (\<lambda>f. docOfInfo P w f (docDir @ f) (projr (getInfoAsync P (docDir @ f) w))) ?fs
           = map (loadEntry P w docDir) ?fs"
    using ok' by (intro map_cong refl) (auto simp: loadEntry_def)
  finally have af: "allFulfilled (map (\<lambda>fileName. map_sum id (docOfInfo P w fileName (docDir @ fileName))
            (getInfoAsync P (docDir @ fileName) w)) ?fs)
      = Some (map (loadEntry P w docDir) ?fs)" .
  show "loadLibrary_v2 P w = Some (pdfs (loadLibrary P w b st))"
    using dir ls by (simp add: loadLibrary_v2_def loadLibrary_pdfs [OF dir ls] af Let_def)
next
  let ?fs = "filter isPdfFile files"
  assume "\<exists>f \<in> set files. isPdfFile f \<and> (\<exists>e. getInfoAsync P (docDir @ f) w = Inl e)"
  then obtain f e where f: "f \<in> set ?fs" "getInfoAsync P (docDir @ f) w = Inl e" by auto
  have "allFulfilled (map (\<lambda>f. map_sum id (\<lambda>i. docOfInfo P w f (docDir @ f) i)
            (getInfoAsync P (docDir @ f) w)) ?fs) = None"
    by (rule allFulfilled_some_Inl [where g = "\<lambda>f. getInfoAsync P (docDir @ f) w"
          and f = "\<lambda>f. docOfInfo P w f (docDir @ f)", OF f])
  then show "loadLibrary_v2 P w = None"
    using dir ls by (simp add: loadLibrary_v2_def)
qed

theorem loadLibrary_v2_witness:
  "loadLibrary_v2 (memPlatform ''/docs/'' 1000000) demoDisk
     = Some (pdfs (loadLibrary (memPlatform ''/docs/'' 1000000) demoDisk True initialScreen))
   \<and> loadLibrary_v2 brokenPlatform demoDisk = None"
proof -
  let ?P = "memPlatform ''/docs/'' 1000000"
  have d: "documentDirectory ?P = Some ''/docs/''" "''/docs/'' \<noteq> []"
    by (simp_all add: memPlatform_def)
  have l: "readDirectoryAsync ?P ''/docs/'' demoDisk = Inr [''a.pdf'', ''notes.txt'', ''B.PDF'']"
    by (simp add: memPlatform_def demoDisk_def)
  have ok: "\<forall>f \<in> set [''a.pdf'', ''notes.txt'', ''B.PDF''].
              isPdfFile f \<longrightarrow> (\<exists>info. getInfoAsync ?P (''/docs/'' @ f) demoDisk = Inr info)"
    by (simp add: memPlatform_def memInfo_def)
  have 1: "loadLibrary_v2 ?P demoDisk = Some (pdfs (loadLibrary ?P demoDisk True initialScreen))"
    using loadLibrary_v2_agrees [OF d l, THEN conjunct1, of True initialScreen] ok by (rule mp)
  have 2: "loadLibrary_v2 brokenPlatform demoDisk = None"
    by (simp add: loadLibrary_v2_def brokenPlatform_def memPlatform_def demoDisk_def
        isPdfFile_def endsWith_def asciiLowerCase_def asciiLowerCaseChar_def upperLetters_def
        lowerLetters_def Let_def)
  show ?thesis by (intro conjI 1 2)
qed

text \<open>
  Outside the draft the unguarded \<^verbatim>\<open>swapImages\<close> of the second screen file is not a
  no-op: it writes \<^verbatim>\<open>undefined\<close> into the draft and may extend it. Its one caller,
  the drag handler, passes indices inside the draft only.
\<close>

theorem swapImages_v2_out_of_range:
  "swapImages_v2 0 3 [Some ''A'', Some ''B'', Some ''C''] = [None, Some ''B'', Some ''C'', Some ''A'']
   \<and> swapImages_v2 (-1) 1 [Some ''A'', Some ''B'', Some ''C''] = [Some ''A'', None, Some ''C'']"
  by (simp add: swapImages_v2_def jsGet_def jsSet_def Let_def)

lemma pagesOf_htmlHead_v2:
  assumes hex: "CHR ''<'' \<notin> set hex" and css: "CHR ''<'' \<notin> set filterCss"
  shows "pagesOf (htmlHead_v2 hex filterCss @ rest) = pagesOf rest"
proof -
  have nl: "pagesOf ([CHR 0x0A] @ r) = pagesOf r" for r
    by (rule pagesOf_skip) simp
  have 1: "pagesOf (''        <!DOCTYPE html><html><head><style>'' @ r) = pagesOf r" for r
    by (simp add: pagesOf_skip_char pagesOf_skip_tag)
  have 2: "pagesOf (''          @page { size: A4; margin: 0; }'' @ r) = pagesOf r" for r
    by (rule pagesOf_skip) simp
  have 3: "pagesOf (''          body { margin: 0; background-color: '' @ r) = pagesOf r" for r
    by (rule pagesOf_skip) simp
  have h3: "pagesOf (hex @ r) = pagesOf r" for r
    by (rule pagesOf_skip [OF hex])
  have t3: "pagesOf (''; }'' @ r) = pagesOf r" for r
    by (rule pagesOf_skip) simp
  have 4: "pagesOf (''          .page { width: 100vw; height: 100vh; display: flex; justify-content: center; align-items: center; page-break-after: always; }'' @ r) = pagesOf r" for r
    by (rule pagesOf_skip) simp
  have 5: "pagesOf (''          img { max-width: 90%; max-height: 90%; object-fit: contain; border-radius: 4px; box-shadow: 0 4px 12px rgba(0,0,0,0.15); '' @ r) = pagesOf r" for r
    by (rule pagesOf_skip) simp
  have h5: "pagesOf (filterCss @ r) = pagesOf r" for r
    by (rule pagesOf_skip [OF css])
  have t5: "pagesOf ('' }'' @ r) = pagesOf r" for r
    by (rule pagesOf_skip) simp
  have 6: "pagesOf (''        </style></head><body>'' @ r) = pagesOf r" for r
    by (simp add: pagesOf_skip_char pagesOf_skip_tag)
  have 7: "pagesOf (''          '' @ r) = pagesOf r" for r
    by (rule pagesOf_skip) simp
  show ?thesis
    unfolding htmlHead_v2_def append_assoc
    by (simp only: nl 1 2 3 h3 t3 4 5 h5 t5 6 7)
qed

lemma filterCss_of_plain: "CHR ''<'' \<notin> set (filterCss_of flt)"
  by (simp add: filterCss_of_def)

lemma pagesOf_htmlContent_v2:
  assumes hex: "CHR ''<'' \<notin> set hex"
    and imgs: "\<forall>img \<in> set imgs. CHR 0x22 \<notin> set img"
  shows "pagesOf (htmlContent_v2 hex (filterCss_of flt) imgs) = imgs"
proof -
  have "pagesOf (htmlContent_v2 hex (filterCss_of flt) imgs)
          = pagesOf (concat (map pageDiv imgs) @ htmlTail @ [])"
    unfolding htmlContent_v2_def
    by (simp only: pagesOf_htmlHead_v2 [OF hex filterCss_of_plain] append_Nil2)
  also have "\<dots> = imgs @ pagesOf (htmlTail @ [])"
    by (rule pagesOf_pages [OF imgs])
  also have "pagesOf (htmlTail @ []) = []"
    by (simp only: pagesOf_htmlTail pagesOf.simps(1))
  finally show ?thesis by simp
qed

text \<open>
  \<^verbatim>\<open>generatePdf\<close> of the second screen file: when every selected image is read as
  base64 text, in whatever order the reads complete, the sheet colour holds no \<^verbatim>\<open><\<close>, and
  the print service and the copy succeed, the page description has exactly the pages
  of the selected images, one for each in selection order, and the printed file is
  copied once, under the trimmed draft name.
\<close>

theorem generatePdf_v2_pages_in_selection_order:
  assumes ne: "selectedImages_v2 st \<noteq> []"
    and perm: "mset sched = mset [0..<length (selectedImages_v2 st)]"
    and reads: "\<forall>u \<in> set (selectedImages_v2 st). readAsStringAsync P u w = Inr (enc u)"
    and b64: "\<forall>u \<in> set (selectedImages_v2 st). list_all isBase64Char (enc u)"
    and hex: "CHR ''<'' \<notin> set (selectedColor_hex st)"
    and pr: "printToFileAsync P
               (htmlContent_v2 (selectedColor_hex st) (filterCss_of (selectedFilter st))
                  (map (\<lambda>u. dataUri (enc u)) (selectedImages_v2 st))) w = Inr (tempUri, w1)"
    and cp: "copyAsync P tempUri (docDirString P @ finalName_v2 P (pdfName_v2 st)) w1 = Inr w2"
  shows "generatePdf_v2 P sched (st, w) =
           Some ((reload_v2 P w2 (st\<lparr>isProcessing_v2 := True\<rparr>))
                   \<lparr>showDraftModal_v2 := False, selectedImages_v2 := [],
                    isProcessing_v2 := False\<rparr>, w2)
       \<and> pagesOf (htmlContent_v2 (selectedColor_hex st) (filterCss_of (selectedFilter st))
             (map (\<lambda>u. dataUri (enc u)) (selectedImages_v2 st)))
           = map (\<lambda>u. dataUri (enc u)) (selectedImages_v2 st)"
proof -
  let ?xs = "selectedImages_v2 st"
  let ?imgs = "map (\<lambda>u. dataUri (enc u)) ?xs"
  have cover: "{0..<length ?imgs} \<subseteq> set sched"
    using perm_covers [OF perm] by simp
  have pa: "Promise_all (map (\<lambda>u. map_sum id dataUri (readAsStringAsync P u w)) ?xs) sched
          = Some (Inr ?imgs)"
    unfolding reads_fulfilled [OF reads] by (rule Promise_all_fulfilled [OF cover])
  have gen: "generatePdf_v2 P sched (st, w) =
           Some ((reload_v2 P w2 (st\<lparr>isProcessing_v2 := True\<rparr>))
                   \<lparr>showDraftModal_v2 := False, selectedImages_v2 := [],
                    isProcessing_v2 := False\<rparr>, w2)"
    using ne pa pr cp by (simp add: generatePdf_v2_def Let_def)
  have nq: "\<forall>img \<in> set ?imgs. CHR 0x22 \<notin> set img"
  proof
    fix img assume "img \<in> set ?imgs"
    then obtain u where u: "u \<in> set ?xs" "img = dataUri (enc u)" by auto
    from b64 u(1) have "list_all isBase64Char (enc u)" by blast
    then show "CHR 0x22 \<notin> set img" unfolding u(2) by (rule base64_no_quote)
  qed
  have pages: "pagesOf (htmlContent_v2 (selectedColor_hex st) (filterCss_of (selectedFilter st)) ?imgs)
                 = ?imgs"
    by (rule pagesOf_htmlContent_v2 [OF hex nq])
  show ?thesis by (intro conjI gen pages)
qed

lemma reviewing_v2_simps [simp]:
  "selectedImages_v2 (reviewing_v2 xs) = xs" "pdfName_v2 (reviewing_v2 xs) = '' Trip 1 ''"
  "selectedColor_hex (reviewing_v2 xs) = ''#FFFBF2''" "selectedFilter (reviewing_v2 xs) = ''bw''"
  by (simp_all add: reviewing_v2_def)

theorem generatePdf_v2_pages_witness:
  "map_option snd (generatePdf_v2 (memPlatform ''/docs/'' 5000) [1, 2, 0]
          (reviewing_v2 [''/img/a.jpg'', ''/img/b.jpg'', ''/img/c.jpg''], imageDisk))
       = Some (imageDisk @
           [(''/cache/print.pdf'',
             \<lparr>content = htmlContent_v2 ''#FFFBF2'' ''filter: grayscale(100%) contrast(1.5);''
                          [dataUri ''QQ'', dataUri ''Qg'', dataUri ''Qw''], mtime = 5\<rparr>),
            (''/docs/Trip 1.pdf'',
             \<lparr>content = htmlContent_v2 ''#FFFBF2'' ''filter: grayscale(100%) contrast(1.5);''
                          [dataUri ''QQ'', dataUri ''Qg'', dataUri ''Qw''], mtime = 5\<rparr>)])
   \<and> pagesOf (htmlContent_v2 ''#FFFBF2'' ''filter: grayscale(100%) contrast(1.5);''
               [dataUri ''QQ'', dataUri ''Qg'', dataUri ''Qw''])
       = [dataUri ''QQ'', dataUri ''Qg'', dataUri ''Qw'']
   \<and> finalName_v2 (memPlatform ''/docs/'' 5000) ''a/b'' = ''a/b.pdf''
   \<and> finalName_v2 (memPlatform ''/docs/'' 5000) ''  '' = ''Document.pdf''"
proof -
  let ?P = "memPlatform ''/docs/'' 5000"
  let ?xs = "[''/img/a.jpg'', ''/img/b.jpg'', ''/img/c.jpg'']"
  let ?st = "reviewing_v2 ?xs"
  let ?html = "htmlContent_v2 ''#FFFBF2'' ''filter: grayscale(100%) contrast(1.5);''
                 [dataUri ''QQ'', dataUri ''Qg'', dataUri ''Qw'']"
  let ?w1 = "imageDisk @ [(''/cache/print.pdf'', \<lparr>content = ?html, mtime = 5\<rparr>)]"
  let ?w2 = "?w1 @ [(''/docs/Trip 1.pdf'', \<lparr>content = ?html, mtime = 5\<rparr>)]"
  have ne: "selectedImages_v2 ?st \<noteq> []" by simp
  have perm: "mset [1, 2, 0] = mset [0..<length (selectedImages_v2 ?st)]"
    by (simp add: upt3)
  have reads: "\<forall>u \<in> set (selectedImages_v2 ?st). readAsStringAsync ?P u imageDisk = Inr (encOf imageDisk u)"
    by (simp add: memPlatform_def memRead_def encOf_def imageDisk_def)
  have imgs: "map (\<lambda>u. dataUri (encOf imageDisk u)) (selectedImages_v2 ?st)
                = [dataUri ''QQ'', dataUri ''Qg'', dataUri ''Qw'']"
    by (simp add: encOf_def imageDisk_def)
  have css: "filterCss_of (selectedFilter ?st) = ''filter: grayscale(100%) contrast(1.5);''"
    by (simp add: filterCss_of_def)
  have pr: "printToFileAsync ?P (htmlContent_v2 (selectedColor_hex ?st) (filterCss_of (selectedFilter ?st))
               (map (\<lambda>u. dataUri (encOf imageDisk u)) (selectedImages_v2 ?st)))
               imageDisk = Inr (''/cache/print.pdf'', ?w1)"
    unfolding imgs css by (simp add: memPlatform_def imageDisk_def)
  have fn: "docDirString ?P @ finalName_v2 ?P (pdfName_v2 ?st) = ''/docs/Trip 1.pdf''"
    by (simp add: docDirString_def memPlatform_def finalName_v2_def asciiTrim_def isWhiteSpace_def)
  have cp: "copyAsync ?P ''/cache/print.pdf'' (docDirString ?P @ finalName_v2 ?P (pdfName_v2 ?st)) ?w1 = Inr ?w2"
    unfolding fn by (simp add: memPlatform_def memCopy_def imageDisk_def)
  have b64: "\<forall>u \<in> set (selectedImages_v2 ?st). list_all isBase64Char (encOf imageDisk u)"
    using imageDisk_base64 by simp
  have hex: "CHR ''<'' \<notin> set (selectedColor_hex ?st)" by simp
  note T = generatePdf_v2_pages_in_selection_order [OF ne perm reads b64 hex pr cp]
  have 3: "pagesOf ?html = [dataUri ''QQ'', dataUri ''Qg'', dataUri ''Qw'']"
    using T [THEN conjunct2] unfolding imgs css by simp
  have 1: "map_option snd (generatePdf_v2 ?P [1, 2, 0] (?st, imageDisk))
       = Some (imageDisk @
           [(''/cache/print.pdf'', \<lparr>content = ?html, mtime = 5\<rparr>),
            (''/docs/Trip 1.pdf'', \<lparr>content = ?html, mtime = 5\<rparr>)])"
    using T [THEN conjunct1] by simp
  have 2: "finalName_v2 ?P ''a/b'' = ''a/b.pdf''" "finalName_v2 ?P ''  '' = ''Document.pdf''"
    by (simp_all add: finalName_v2_def asciiTrim_def isWhiteSpace_def)
  show ?thesis by (intro conjI 1 3 2)
qed

end
